theory Spec2Isabelle
  imports Main
begin

section \<open>Resilient email service: data model\<close>

text \<open>
  The embedding follows \<^verbatim>\<open>src/services/EmailService.ts\<close> and
  \<^verbatim>\<open>src/services/CircuitBreaker.ts\<close>.

  What the TypeScript leaves to its environment is made explicit:
  \<^item> \<^verbatim>\<open>Date.now()\<close> and \<^verbatim>\<open>new Date()\<close> read the field \<open>clock\<close> of a
    \<open>world\<close> (milliseconds); synchronous code takes no time, \<^verbatim>\<open>wait(ms)\<close> advances
    the clock by \<open>ms\<close>, a provider call advances it by the provider's \<open>latency\<close>;
  \<^item> the effects a caller can observe from outside (a provider's \<^verbatim>\<open>send\<close> being
    invoked, a backoff wait) are appended to the \<open>trace\<close> of the world;
  \<^item> a provider is a name, the number of \<^verbatim>\<open>send\<close> calls it has received so far
    (the \<^verbatim>\<open>sendCalledCount\<close> of the test suite's mock) and a function \<open>respond\<close>
    giving the outcome of its \<open>n\<close>-th call for a payload;
  \<^item> \<^verbatim>\<open>uuidv4()\<close> is the argument \<open>uid\<close> of \<open>sendEmail\<close>;
  \<^item> a promise of \<^verbatim>\<open>send\<close> resolves with a value of the interface's type
    (\<^verbatim>\<open>success\<close> and \<^verbatim>\<open>providerName\<close>), but rejects with any value: a \<open>reason\<close> is \<open>Nullish\<close> for
    \<^verbatim>\<open>undefined\<close> and \<^verbatim>\<open>null\<close>, and \<open>ErrorValue\<close> for an \<^verbatim>\<open>Error\<close> object or any
    other value. The two differ at line 100, where reading \<^verbatim>\<open>.message\<close> of the caught
    value throws a \<^verbatim>\<open>TypeError\<close> on the first and on no other;
  \<^item> a thrown value is a value of type \<open>error\<close>: one constructor for each
    \<^verbatim>\<open>Error\<close> the code creates, \<open>ProviderError r\<close> for the provider's rejection with
    reason \<open>r\<close>, which the breaker throws again as it is, and \<open>TypeError\<close>.

  Names are the source's, but for the fields \<^verbatim>\<open>to\<close> and \<^verbatim>\<open>from\<close> of the payload
  (\<open>to_addr\<close>, \<open>from_addr\<close>), \<^verbatim>\<open>id\<close> of a tracked email (\<open>email_id\<close>) and
  \<^verbatim>\<open>provider\<close> of a breaker (\<open>cb_provider\<close>; \<open>provider\<close> is the field of the tracked
  email).
\<close>

record EmailPayload =
  to_addr :: string
  from_addr :: string
  subject :: string
  body :: string

datatype reason = ErrorValue | Nullish

datatype outcome = Resolves bool string | Rejects reason

datatype error =
    RateLimitExceeded
  | CircuitOpenError
  | HalfOpenBusyError
  | ProviderError reason
  | TypeError

datatype event = Invoke string | Wait int

record world =
  clock :: int
  trace :: "event list"

record IEmailProvider =
  name :: string
  respond :: "EmailPayload \<Rightarrow> nat \<Rightarrow> outcome"
  latency :: int
  sendCalledCount :: nat

datatype CircuitState = CLOSED | OPEN | HALF_OPEN

record CircuitBreaker =
  cb_provider :: IEmailProvider
  state :: CircuitState
  failureCount :: nat
  lastFailureTime :: int
  halfOpenRequestPending :: bool

datatype EmailStatus = pending | sent | failed

record TrackedEmail =
  email_id :: string
  status :: EmailStatus
  attempts :: nat
  provider :: "string option"
  lastAttempt :: int
  idempotencyKey :: string

record EmailService =
  providers :: "CircuitBreaker list"
  sentEmailIds :: "string set"
  emailStatus :: "string \<rightharpoonup> TrackedEmail"
  requestTimestamps :: "int list"

definition RATE_LIMIT_COUNT :: nat where
  "RATE_LIMIT_COUNT = 5"

definition RATE_LIMIT_WINDOW_MS :: int where
  "RATE_LIMIT_WINDOW_MS = 10000"

definition MAX_RETRIES :: nat where
  "MAX_RETRIES = 2"

definition failureThreshold :: nat where
  "failureThreshold = 3"

definition resetTimeout :: int where
  "resetTimeout = 30000"

section \<open>CircuitBreaker.ts\<close>

text \<open>The constructor: a breaker starts CLOSED with no failure recorded.\<close>

definition new_CircuitBreaker :: "IEmailProvider \<Rightarrow> CircuitBreaker" where
  "new_CircuitBreaker p =
     \<lparr>cb_provider = p, state = CLOSED, failureCount = 0, lastFailureTime = 0,
      halfOpenRequestPending = False\<rparr>"

definition getName :: "CircuitBreaker \<Rightarrow> string" where
  "getName cb = name (cb_provider cb)"

text \<open>
  The wrapped provider's \<^verbatim>\<open>send\<close>: the call is counted and traced, takes
  \<open>latency\<close> milliseconds, and resolves or rejects as \<open>respond\<close> says.
\<close>

definition provider_send ::
  "EmailPayload \<Rightarrow> IEmailProvider \<Rightarrow> world \<Rightarrow> outcome \<times> IEmailProvider \<times> world" where
  "provider_send pl p w =
     (respond p pl (sendCalledCount p),
      p\<lparr>sendCalledCount := Suc (sendCalledCount p)\<rparr>,
      w\<lparr>clock := clock w + latency p, trace := trace w @ [Invoke (name p)]\<rparr>)"

text \<open>
  \<^verbatim>\<open>CircuitBreaker.send\<close>, lines 29-49: the synchronous part before the wrapped
  provider is called. The result is the error thrown, if any, and the breaker as the
  checks leave it.
\<close>

definition send_gate :: "int \<Rightarrow> CircuitBreaker \<Rightarrow> error option \<times> CircuitBreaker" where
  "send_gate now cb =
     (if state cb = OPEN \<and> \<not> (now - lastFailureTime cb > resetTimeout)
      then (Some CircuitOpenError, cb)
      else
        let cb1 = (if state cb = OPEN
                   then cb\<lparr>state := HALF_OPEN, halfOpenRequestPending := False\<rparr>
                   else cb)
        in if state cb1 = HALF_OPEN \<and> halfOpenRequestPending cb1
           then (Some HalfOpenBusyError, cb1)
           else if state cb1 = HALF_OPEN
                then (None, cb1\<lparr>halfOpenRequestPending := True\<rparr>)
                else (None, cb1))"

text \<open>\<^verbatim>\<open>recordFailure\<close> (lines 65-75) and \<^verbatim>\<open>reset\<close> (lines 77-84).\<close>

definition recordFailure :: "int \<Rightarrow> CircuitBreaker \<Rightarrow> CircuitBreaker" where
  "recordFailure now cb =
     (let cb1 = cb\<lparr>failureCount := Suc (failureCount cb), lastFailureTime := now,
                   halfOpenRequestPending := False\<rparr>
      in if failureCount cb1 \<ge> failureThreshold then cb1\<lparr>state := OPEN\<rparr> else cb1)"

definition reset :: "CircuitBreaker \<Rightarrow> CircuitBreaker" where
  "reset cb = cb\<lparr>failureCount := 0, state := CLOSED, halfOpenRequestPending := False\<rparr>"

text \<open>
  \<^verbatim>\<open>CircuitBreaker.send\<close>, lines 52-62: what happens once the wrapped provider's
  promise settles. A resolved promise resets the breaker whatever \<open>success\<close> says;
  a rejected one is recorded and its reason thrown again.
\<close>

definition send_settle ::
  "outcome \<Rightarrow> int \<Rightarrow> CircuitBreaker \<Rightarrow> (error + bool \<times> string) \<times> CircuitBreaker" where
  "send_settle out now cb =
     (case out of
        Resolves ok nm \<Rightarrow> (Inr (ok, nm), reset cb)
      | Rejects r \<Rightarrow> (Inl (ProviderError r), recordFailure now cb))"

text \<open>\<^verbatim>\<open>CircuitBreaker.send\<close> as a whole, run without interruption.\<close>

definition CircuitBreaker_send ::
  "EmailPayload \<Rightarrow> CircuitBreaker \<Rightarrow> world \<Rightarrow> (error + bool \<times> string) \<times> CircuitBreaker \<times> world" where
  "CircuitBreaker_send pl cb w =
     (case send_gate (clock w) cb of
        (Some e, cb1) \<Rightarrow> (Inl e, cb1, w)
      | (None, cb1) \<Rightarrow>
          (case provider_send pl (cb_provider cb1) w of
             (out, p', w') \<Rightarrow>
               (case send_settle out (clock w') (cb1\<lparr>cb_provider := p'\<rparr>) of
                  (r, cb2) \<Rightarrow> (r, cb2, w'))))"

section \<open>EmailService.ts\<close>

text \<open>
  The constructor (lines 29-35) refuses an empty provider list and wraps every provider
  in a breaker of its own.
\<close>

definition new_EmailService :: "IEmailProvider list \<Rightarrow> EmailService option" where
  "new_EmailService ps =
     (if ps = [] then None
      else Some \<lparr>providers = map new_CircuitBreaker ps, sentEmailIds = {},
                 emailStatus = Map.empty, requestTimestamps = []\<rparr>)"

text \<open>\<^verbatim>\<open>wait\<close> (lines 38-40): the backoff delay, as the clock and the trace see it.\<close>

definition wait :: "int \<Rightarrow> world \<Rightarrow> world" where
  "wait ms w = w\<lparr>clock := clock w + ms, trace := trace w @ [Wait ms]\<rparr>"

text \<open>\<^verbatim>\<open>isRateLimited\<close> (lines 42-54): prune the window, then compare.\<close>

definition isRateLimited :: "int \<Rightarrow> EmailService \<Rightarrow> bool \<times> EmailService" where
  "isRateLimited now s =
     (let s1 = s\<lparr>requestTimestamps :=
                   filter (\<lambda>timestamp. now - timestamp < RATE_LIMIT_WINDOW_MS)
                     (requestTimestamps s)\<rparr>
      in (length (requestTimestamps s1) \<ge> RATE_LIMIT_COUNT, s1))"

text \<open>
  How a pass through the loop body ends: \<^verbatim>\<open>sendEmail\<close> returns from inside the loop
  (line 97), the loop goes on, or an error leaves the \<^verbatim>\<open>catch\<close> block and with it
  \<^verbatim>\<open>sendEmail\<close>.
\<close>

datatype flow = Returned | Continues | Thrown error

text \<open>
  Line 100, \<^verbatim>\<open>(error as Error).message\<close>, inside the \<^verbatim>\<open>catch\<close> block: reading a
  property of \<^verbatim>\<open>undefined\<close> or \<^verbatim>\<open>null\<close> throws a \<^verbatim>\<open>TypeError\<close>; of any other value it
  does not. The errors of the breaker's gate are \<^verbatim>\<open>Error\<close> objects.
\<close>

definition message_throws :: "error \<Rightarrow> bool" where
  "message_throws e = (e = ProviderError Nullish)"

text \<open>
  One pass through the body of the inner loop (lines 84-106) with try index \<open>i\<close>.
  A resolved result with \<open>success = false\<close> leaves the \<^verbatim>\<open>try\<close> block without
  entering \<^verbatim>\<open>catch\<close>; every thrown error enters it, and there line 100 comes before
  the wait.
\<close>

definition attempt ::
  "EmailPayload \<Rightarrow> nat \<Rightarrow> CircuitBreaker \<Rightarrow> TrackedEmail \<Rightarrow> world
     \<Rightarrow> flow \<times> CircuitBreaker \<times> TrackedEmail \<times> world" where
  "attempt pl i cb te w =
     (let te1 = te\<lparr>attempts := Suc (attempts te), lastAttempt := clock w\<rparr>
      in case CircuitBreaker_send pl cb w of
           (Inr (success, providerName), cb', w') \<Rightarrow>
             if success
             then (Returned, cb', te1\<lparr>status := sent, provider := Some providerName\<rparr>, w')
             else (Continues, cb', te1, w')
         | (Inl e, cb', w') \<Rightarrow>
             if message_throws e then (Thrown TypeError, cb', te1, w')
             else (Continues, cb', te1,
                   if i < MAX_RETRIES then wait (2 ^ i * 200) w' else w'))"

text \<open>The inner loop over the try indices, \<^verbatim>\<open>for (let i = 0; i <= MAX_RETRIES; i++)\<close>.\<close>

fun retry_loop ::
  "EmailPayload \<Rightarrow> nat list \<Rightarrow> CircuitBreaker \<Rightarrow> TrackedEmail \<Rightarrow> world
     \<Rightarrow> flow \<times> CircuitBreaker \<times> TrackedEmail \<times> world" where
  "retry_loop pl [] cb te w = (Continues, cb, te, w)"
| "retry_loop pl (i # is) cb te w =
     (case attempt pl i cb te w of
        (Continues, cb', te', w') \<Rightarrow> retry_loop pl is cb' te' w'
      | (f, cb', te', w') \<Rightarrow> (f, cb', te', w'))"

text \<open>The outer loop over the providers in their order (line 82).\<close>

fun provider_loop ::
  "EmailPayload \<Rightarrow> CircuitBreaker list \<Rightarrow> TrackedEmail \<Rightarrow> world
     \<Rightarrow> flow \<times> CircuitBreaker list \<times> TrackedEmail \<times> world" where
  "provider_loop pl [] te w = (Continues, [], te, w)"
| "provider_loop pl (cb # cbs) te w =
     (case retry_loop pl [0..<Suc MAX_RETRIES] cb te w of
        (Continues, cb', te', w') \<Rightarrow>
          (case provider_loop pl cbs te' w' of
             (f, cbs', te'', w'') \<Rightarrow> (f, cb' # cbs', te'', w''))
      | (f, cb', te', w') \<Rightarrow> (f, cb' # cbs, te', w'))"

text \<open>
  \<^verbatim>\<open>sendEmail\<close> (lines 56-116), for a call that runs to its end with no other call
  in between. The map \<open>emailStatus\<close> holds a reference to the object the loops mutate,
  so the model stores the record as the loops leave it, also when an error leaves the
  loops: the record then stays \<open>pending\<close>. Line 60 returns whatever the map holds for
  the key, \<^verbatim>\<open>undefined\<close> included, hence the \<open>option\<close> in the result.
\<close>

definition sendEmail ::
  "EmailPayload \<Rightarrow> string \<Rightarrow> string \<Rightarrow> EmailService \<Rightarrow> world
     \<Rightarrow> (error + TrackedEmail option) \<times> EmailService \<times> world" where
  "sendEmail pl key uid s w =
     (if key \<in> sentEmailIds s then (Inr (emailStatus s key), s, w)
      else
        case isRateLimited (clock w) s of
          (True, s1) \<Rightarrow> (Inl RateLimitExceeded, s1, w)
        | (False, s1) \<Rightarrow>
            let s2 = s1\<lparr>requestTimestamps := requestTimestamps s1 @ [clock w]\<rparr>;
                trackedEmail = \<lparr>email_id = uid, status = pending, attempts = 0,
                                provider = None, lastAttempt = clock w,
                                idempotencyKey = key\<rparr>
            in case provider_loop pl (providers s2) trackedEmail w of
                 (Returned, cbs, te, w') \<Rightarrow>
                   (Inr (Some te),
                    s2\<lparr>providers := cbs,
                       sentEmailIds := insert key (sentEmailIds s2),
                       emailStatus := (emailStatus s2)(key \<mapsto> te)\<rparr>,
                    w')
               | (Continues, cbs, te, w') \<Rightarrow>
                   (Inr (Some (te\<lparr>status := failed\<rparr>)),
                    s2\<lparr>providers := cbs,
                       emailStatus := (emailStatus s2)(key \<mapsto> te\<lparr>status := failed\<rparr>)\<rparr>,
                    w')
               | (Thrown e, cbs, te, w') \<Rightarrow>
                   (Inl e,
                    s2\<lparr>providers := cbs,
                       emailStatus := (emailStatus s2)(key \<mapsto> te)\<rparr>,
                    w'))"

definition getEmailStatus :: "EmailService \<Rightarrow> string \<Rightarrow> TrackedEmail option" where
  "getEmailStatus s key = emailStatus s key"

text \<open>
  The part of \<^verbatim>\<open>sendEmail\<close> that runs before the call first suspends: lines 57-89
  up to the \<^verbatim>\<open>await\<close>, with the synchronous part of \<^verbatim>\<open>CircuitBreaker.send\<close> and the
  call of the wrapped provider's \<^verbatim>\<open>send\<close> inside it. JavaScript runs this part
  without interruption; other calls run only while this one is suspended. The first
  component is the result when the call settles without suspending and \<open>None\<close> when it
  is suspended at line 89. No time passes, and the object stored in the map at line 79
  is the one lines 86-87 mutate.
\<close>

definition sendEmail_begin ::
  "EmailPayload \<Rightarrow> string \<Rightarrow> string \<Rightarrow> EmailService \<Rightarrow> world
     \<Rightarrow> (error + TrackedEmail option) option \<times> EmailService \<times> world" where
  "sendEmail_begin pl key uid s w =
     (if key \<in> sentEmailIds s then (Some (Inr (emailStatus s key)), s, w)
      else
        case isRateLimited (clock w) s of
          (True, s1) \<Rightarrow> (Some (Inl RateLimitExceeded), s1, w)
        | (False, s1) \<Rightarrow>
            let s2 = s1\<lparr>requestTimestamps := requestTimestamps s1 @ [clock w]\<rparr>;
                trackedEmail = \<lparr>email_id = uid, status = pending, attempts = 0,
                                provider = None, lastAttempt = clock w,
                                idempotencyKey = key\<rparr>
            in case providers s2 of
                 [] \<Rightarrow>
                   (Some (Inr (Some (trackedEmail\<lparr>status := failed\<rparr>))),
                    s2\<lparr>emailStatus := (emailStatus s2)(key \<mapsto> trackedEmail\<lparr>status := failed\<rparr>)\<rparr>,
                    w)
               | cb # cbs \<Rightarrow>
                   let te1 = trackedEmail\<lparr>attempts := Suc (attempts trackedEmail),
                                           lastAttempt := clock w\<rparr>;
                       s3 = s2\<lparr>emailStatus := (emailStatus s2)(key \<mapsto> te1)\<rparr>
                   in case send_gate (clock w) cb of
                        (Some e, cb1) \<Rightarrow> (None, s3\<lparr>providers := cb1 # cbs\<rparr>, w)
                      | (None, cb1) \<Rightarrow>
                          (None,
                           s3\<lparr>providers :=
                                cb1\<lparr>cb_provider :=
                                      (cb_provider cb1)\<lparr>sendCalledCount :=
                                         Suc (sendCalledCount (cb_provider cb1))\<rparr>\<rparr> # cbs\<rparr>,
                           w\<lparr>trace := trace w @ [Invoke (name (cb_provider cb1))]\<rparr>))"

section \<open>Reachable states\<close>

text \<open>
  The states a service goes through when its calls are made one after the other:
  \<open>reachable\<close> from the constructor, \<open>evolves\<close> from a given state. The world a call
  starts in is arbitrary, so any time may pass between two calls. \<^verbatim>\<open>getEmailStatus\<close>
  changes nothing and needs no rule.
\<close>

inductive reachable :: "EmailService \<Rightarrow> bool" where
  fresh: "new_EmailService ps = Some s \<Longrightarrow> reachable s"
| call: "reachable s \<Longrightarrow> sendEmail pl key uid s w = (r, s', w') \<Longrightarrow> reachable s'"

inductive evolves :: "EmailService \<Rightarrow> EmailService \<Rightarrow> bool" where
  same: "evolves s s"
| later: "evolves s s' \<Longrightarrow> sendEmail pl key uid s' w = (r, s'', w') \<Longrightarrow> evolves s s''"

section \<open>The scenarios of the test suite\<close>

text \<open>
  \<^verbatim>\<open>ControllableMockProvider\<close> and \<^verbatim>\<open>emailPayload\<close> of
  \<^verbatim>\<open>src/__tests__/EmailService.test.ts\<close>: a provider that throws an \<^verbatim>\<open>Error\<close> on every
  call when \<open>shouldFail\<close> is set and resolves with \<open>success = true\<close> and its own name
  otherwise.
\<close>

definition emailPayload :: EmailPayload where
  "emailPayload = \<lparr>to_addr = ''test@example.com'', from_addr = ''service@example.com'',
                    subject = ''Test Email'', body = ''This is a test.''\<rparr>"

definition ControllableMockProvider :: "string \<Rightarrow> bool \<Rightarrow> IEmailProvider" where
  "ControllableMockProvider nm shouldFail =
     \<lparr>name = nm,
      respond = (\<lambda>pl n. if shouldFail then Rejects ErrorValue else Resolves True nm),
      latency = 0, sendCalledCount = 0\<rparr>"

definition world0 :: world where
  "world0 = \<lparr>clock = 1000000, trace = []\<rparr>"

text \<open>The service of the test suite, with the given failure switches of its two providers.\<close>

definition emailService :: "bool \<Rightarrow> bool \<Rightarrow> EmailService" where
  "emailService fail1 fail2 =
     \<lparr>providers = map new_CircuitBreaker
                     [ControllableMockProvider ''Provider1'' fail1,
                      ControllableMockProvider ''Provider2'' fail2],
      sentEmailIds = {}, emailStatus = Map.empty, requestTimestamps = []\<rparr>"

text \<open>What the tests look at: the \<^verbatim>\<open>sendCalledCount\<close> of each provider.\<close>

definition sendCalledCounts :: "EmailService \<Rightarrow> nat list" where
  "sendCalledCounts s = map (\<lambda>cb. sendCalledCount (cb_provider cb)) (providers s)"

text \<open>Calls made one after the other, each awaited, results dropped.\<close>

fun send_each ::
  "EmailPayload \<Rightarrow> (string \<times> string) list \<Rightarrow> EmailService \<times> world
     \<Rightarrow> EmailService \<times> world" where
  "send_each pl [] sw = sw"
| "send_each pl ((key, uid) # ks) (s, w) =
     (case sendEmail pl key uid s w of (r, s', w') \<Rightarrow> send_each pl ks (s', w'))"

text \<open>
  A breaker around the test provider named Provider1, in a given state, and a world
  with a given clock and an empty trace.
\<close>

definition breaker ::
  "bool \<Rightarrow> nat \<Rightarrow> CircuitState \<Rightarrow> nat \<Rightarrow> int \<Rightarrow> bool \<Rightarrow> CircuitBreaker" where
  "breaker shouldFail calls st fc lft pend =
     \<lparr>cb_provider =
        (ControllableMockProvider ''Provider1'' shouldFail)\<lparr>sendCalledCount := calls\<rparr>,
      state = st, failureCount = fc, lastFailureTime = lft, halfOpenRequestPending = pend\<rparr>"

definition at_time :: "int \<Rightarrow> world" where
  "at_time t = \<lparr>clock = t, trace = []\<rparr>"

text \<open>The five admitted calls of a full window (the rate-limit test, with the default limit).\<close>

definition rate_keys :: "(string \<times> string) list" where
  "rate_keys = [(''rate-1'', ''uuid-1''), (''rate-2'', ''uuid-2''), (''rate-3'', ''uuid-3''),
                (''rate-4'', ''uuid-4''), (''rate-5'', ''uuid-5'')]"

definition after_five :: "EmailService \<times> world" where
  "after_five = send_each emailPayload rate_keys (emailService False False, world0)"

text \<open>A record as line 72 creates it, and the backoff delays of a trace in their order.\<close>

definition pending_record :: TrackedEmail where
  "pending_record =
     \<lparr>email_id = ''uuid-1'', status = pending, attempts = 0, provider = None,
      lastAttempt = 1000000, idempotencyKey = ''id-3''\<rparr>"

fun waits :: "event list \<Rightarrow> int list" where
  "waits [] = []"
| "waits (Wait ms # es) = ms # waits es"
| "waits (Invoke nm # es) = waits es"

text \<open>
  A CLOSED breaker around a provider that resolves every call with \<open>success = false\<close>,
  after a given number of calls and with a given failure count.
\<close>

definition unsuccessful_breaker :: "nat \<Rightarrow> nat \<Rightarrow> CircuitBreaker" where
  "unsuccessful_breaker calls fc =
     \<lparr>cb_provider =
        \<lparr>name = ''Provider1'', respond = (\<lambda>pl n. Resolves False ''Provider1''),
         latency = 0, sendCalledCount = calls\<rparr>,
      state = CLOSED, failureCount = fc, lastFailureTime = 1000200,
      halfOpenRequestPending = False\<rparr>"

text \<open>
  Calls on the test service: a first call that is sent by Provider1, a call for another
  key half a second later; a first call on which both providers fail, and a second
  call for the same key forty seconds after it started.
\<close>

definition sent_once :: "(error + TrackedEmail option) \<times> EmailService \<times> world" where
  "sent_once = sendEmail emailPayload ''id-4'' ''uuid-1'' (emailService False False) world0"

definition failed_once :: "(error + TrackedEmail option) \<times> EmailService \<times> world" where
  "failed_once = sendEmail emailPayload ''id-3'' ''uuid-1'' (emailService True True) world0"

definition failed_again :: "(error + TrackedEmail option) \<times> EmailService \<times> world" where
  "failed_again =
     sendEmail emailPayload ''id-3'' ''uuid-2'' (fst (snd failed_once)) (at_time 1041200)"

definition sent_then_other :: "(error + TrackedEmail option) \<times> EmailService \<times> world" where
  "sent_then_other =
     sendEmail emailPayload ''id-5'' ''uuid-2'' (fst (snd sent_once)) (at_time 1000500)"

text \<open>
  Second calls with a new key, made as soon as the first call has returned: on the
  service whose providers both fail, and on the one whose primary fails and whose
  secondary succeeds.
\<close>

definition failed_other :: "(error + TrackedEmail option) \<times> EmailService \<times> world" where
  "failed_other =
     sendEmail emailPayload ''id-3b'' ''uuid-2'' (fst (snd failed_once)) (snd (snd failed_once))"



text \<open>
  Two calls with the same new key on the test service, the second begun while the
  first is suspended at its first \<^verbatim>\<open>await\<close>.
\<close>

definition begun_once :: "(error + TrackedEmail option) option \<times> EmailService \<times> world" where
  "begun_once = sendEmail_begin emailPayload ''id-4'' ''uuid-1'' (emailService False False) world0"

definition begun_twice :: "(error + TrackedEmail option) option \<times> EmailService \<times> world" where
  "begun_twice =
     sendEmail_begin emailPayload ''id-4'' ''uuid-2'' (fst (snd begun_once)) (snd (snd begun_once))"

text \<open>
  The fallback test with a primary provider that rejects with \<^verbatim>\<open>undefined\<close> instead of
  throwing an \<^verbatim>\<open>Error\<close>: its breaker, the service, and one call on it.
\<close>

definition nullish_breaker :: "nat \<Rightarrow> nat \<Rightarrow> int \<Rightarrow> CircuitBreaker" where
  "nullish_breaker calls fc lft =
     \<lparr>cb_provider =
        \<lparr>name = ''Provider1'', respond = (\<lambda>pl n. Rejects Nullish),
         latency = 0, sendCalledCount = calls\<rparr>,
      state = CLOSED, failureCount = fc, lastFailureTime = lft,
      halfOpenRequestPending = False\<rparr>"

definition nullish_service :: EmailService where
  "nullish_service =
     \<lparr>providers = [nullish_breaker 0 0 0,
                    new_CircuitBreaker (ControllableMockProvider ''Provider2'' False)],
      sentEmailIds = {}, emailStatus = Map.empty, requestTimestamps = []\<rparr>"

definition nullish_once :: "(error + TrackedEmail option) \<times> EmailService \<times> world" where
  "nullish_once = sendEmail emailPayload ''id-2'' ''uuid-1'' nullish_service world0"

section \<open>Properties\<close>

subsection \<open>Unfolding and evaluation\<close>

text \<open>
  The definitions that evaluate a call, and the values of the calls of the scenarios.
\<close>

lemmas cb_defs = CircuitBreaker_send_def send_gate_def provider_send_def send_settle_def
  recordFailure_def reset_def

lemmas const_defs = RATE_LIMIT_COUNT_def RATE_LIMIT_WINDOW_MS_def MAX_RETRIES_def
  failureThreshold_def resetTimeout_def

lemmas scenario_defs = emailPayload_def ControllableMockProvider_def world0_def
  emailService_def new_CircuitBreaker_def sendCalledCounts_def

lemmas ev = cb_defs const_defs scenario_defs breaker_def at_time_def Let_def getName_def
  message_throws_def

lemmas svc_defs = sendEmail_def isRateLimited_def attempt_def wait_def getEmailStatus_def

lemma after_five_window:
  "requestTimestamps (fst after_five) = [1000000, 1000000, 1000000, 1000000, 1000000]"
  "sentEmailIds (fst after_five) = {''rate-5'', ''rate-4'', ''rate-3'', ''rate-2'', ''rate-1''}"
  "clock (snd after_five) = 1000000"
  by (simp_all add: after_five_def rate_keys_def svc_defs ev upt_rec)

lemma emailService_fresh:
  "new_EmailService [ControllableMockProvider ''Provider1'' f1,
                     ControllableMockProvider ''Provider2'' f2] = Some (emailService f1 f2)"
  by (simp add: new_EmailService_def emailService_def)

lemma sent_once_value:
  "sent_once =
     (Inr (Some \<lparr>email_id = ''uuid-1'', status = sent, attempts = 1,
                  provider = Some ''Provider1'', lastAttempt = 1000000,
                  idempotencyKey = ''id-4''\<rparr>),
      fst (snd sent_once),
      \<lparr>clock = 1000000, trace = [Invoke ''Provider1'']\<rparr>)"
  "getEmailStatus (fst (snd sent_once)) ''id-4'' =
     Some \<lparr>email_id = ''uuid-1'', status = sent, attempts = 1,
            provider = Some ''Provider1'', lastAttempt = 1000000,
            idempotencyKey = ''id-4''\<rparr>"
  "sendCalledCounts (fst (snd sent_once)) = [1, 0]"
  "requestTimestamps (fst (snd sent_once)) = [1000000]"
  by (simp_all add: sent_once_def svc_defs ev upt_rec)

lemma sent_once_reachable: "reachable (fst (snd sent_once))"
proof -
  have "reachable (emailService False False)"
    using emailService_fresh by (rule reachable.fresh)
  moreover have "sendEmail emailPayload ''id-4'' ''uuid-1'' (emailService False False) world0
      = (fst sent_once, fst (snd sent_once), snd (snd sent_once))"
    by (simp add: sent_once_def)
  ultimately show ?thesis by (rule reachable.call)
qed

lemma failed_once_value:
  "fst failed_once
     = Inr (Some \<lparr>email_id = ''uuid-1'', status = failed, attempts = 6, provider = None,
                  lastAttempt = 1001200, idempotencyKey = ''id-3''\<rparr>)"
  "sendCalledCounts (fst (snd failed_once)) = [3, 3]"
  "map state (providers (fst (snd failed_once))) = [OPEN, OPEN]"
  "requestTimestamps (fst (snd failed_once)) = [1000000]"
  "sentEmailIds (fst (snd failed_once)) = {}"
  "snd (snd failed_once)
     = \<lparr>clock = 1001200,
        trace = [Invoke ''Provider1'', Wait 200, Invoke ''Provider1'', Wait 400,
                 Invoke ''Provider1'', Invoke ''Provider2'', Wait 200,
                 Invoke ''Provider2'', Wait 400, Invoke ''Provider2'']\<rparr>"
  by (simp_all add: failed_once_def svc_defs ev upt_rec)

subsection \<open>Records and sent keys\<close>

text \<open>
  What the loops do to the record, the ways a call can end, and the invariant that
  ties \<open>sentEmailIds\<close> to the status map: a key is in the set exactly when its record
  has status \<open>sent\<close>.
\<close>

lemma attempt_record:
  assumes "attempt pl i cb te w = (f, cb', te', w')"
  shows "(f = Returned \<longrightarrow> status te' = sent)
         \<and> (f \<noteq> Returned \<longrightarrow> status te' = status te \<and> provider te' = provider te)
         \<and> (\<forall>e. f = Thrown e \<longrightarrow> e = TypeError)
         \<and> email_id te' = email_id te \<and> idempotencyKey te' = idempotencyKey te"
  using assms
  by (auto simp: attempt_def Let_def split: prod.splits sum.splits if_splits)

lemma retry_loop_record:
  assumes "retry_loop pl is cb te w = (f, cb', te', w')"
  shows "(f = Returned \<longrightarrow> status te' = sent)
         \<and> (f \<noteq> Returned \<longrightarrow> status te' = status te \<and> provider te' = provider te)
         \<and> (\<forall>e. f = Thrown e \<longrightarrow> e = TypeError)
         \<and> email_id te' = email_id te \<and> idempotencyKey te' = idempotencyKey te"
  using assms
proof (induction "is" arbitrary: cb te w)
  case Nil
  then show ?case by auto
next
  case (Cons i "is")
  obtain f1 cb1 te1 w1 where a: "attempt pl i cb te w = (f1, cb1, te1, w1)"
    by (cases "attempt pl i cb te w") auto
  note ar = attempt_record [OF a]
  show ?case
  proof (cases "f1 = Continues")
    case True
    with a Cons.prems have "retry_loop pl is cb1 te1 w1 = (f, cb', te', w')" by simp
    from Cons.IH [OF this] ar True show ?thesis by auto
  next
    case False
    with a Cons.prems have "f = f1" "te' = te1" by (auto split: flow.splits)
    with ar show ?thesis by auto
  qed
qed

lemma provider_loop_record:
  assumes "provider_loop pl cbs te w = (f, cbs', te', w')"
  shows "(f = Returned \<longrightarrow> status te' = sent)
         \<and> (f \<noteq> Returned \<longrightarrow> status te' = status te \<and> provider te' = provider te)
         \<and> (\<forall>e. f = Thrown e \<longrightarrow> e = TypeError)
         \<and> email_id te' = email_id te \<and> idempotencyKey te' = idempotencyKey te"
  using assms
proof (induction cbs arbitrary: te w f cbs' te' w')
  case Nil
  then show ?case by auto
next
  case (Cons cb cbs)
  obtain f1 cb1 te1 w1
    where a: "retry_loop pl [0..<Suc MAX_RETRIES] cb te w = (f1, cb1, te1, w1)"
    by (cases "retry_loop pl [0..<Suc MAX_RETRIES] cb te w") auto
  note ar = retry_loop_record [OF a]
  show ?case
  proof (cases "f1 = Continues")
    case True
    obtain f2 cbs2 te2 w2 where b: "provider_loop pl cbs te1 w1 = (f2, cbs2, te2, w2)"
      by (cases "provider_loop pl cbs te1 w1") auto
    with a True Cons.prems have "f = f2" "te' = te2" by auto
    with Cons.IH [OF b] ar True show ?thesis by auto
  next
    case False
    with a Cons.prems have "f = f1" "te' = te1" by (auto split: flow.splits)
    with ar show ?thesis by auto
  qed
qed

lemma sendEmail_cases:
  assumes "sendEmail pl key uid s w = (res, s', w')"
  shows "(key \<in> sentEmailIds s \<and> res = Inr (emailStatus s key) \<and> s' = s \<and> w' = w)
       \<or> (key \<notin> sentEmailIds s \<and> fst (isRateLimited (clock w) s) \<and> res = Inl RateLimitExceeded
           \<and> s' = snd (isRateLimited (clock w) s) \<and> w' = w)
       \<or> (key \<notin> sentEmailIds s \<and> \<not> fst (isRateLimited (clock w) s)
           \<and> (\<exists>te. emailStatus s' = (emailStatus s)(key \<mapsto> te)
                 \<and> email_id te = uid \<and> idempotencyKey te = key
                 \<and> ((res = Inr (Some te) \<and> status te = sent
                        \<and> sentEmailIds s' = insert key (sentEmailIds s))
                    \<or> (res = Inr (Some te) \<and> status te = failed \<and> provider te = None
                        \<and> sentEmailIds s' = sentEmailIds s)
                    \<or> (res = Inl TypeError \<and> status te = pending
                        \<and> sentEmailIds s' = sentEmailIds s))))"
proof (cases "key \<in> sentEmailIds s")
  case True
  with assms show ?thesis by (auto simp: sendEmail_def)
next
  case k: False
  obtain lim s1 where l: "isRateLimited (clock w) s = (lim, s1)"
    by (cases "isRateLimited (clock w) s") auto
  then have s1: "emailStatus s1 = emailStatus s" "sentEmailIds s1 = sentEmailIds s"
    by (auto simp: isRateLimited_def Let_def)
  show ?thesis
  proof (cases lim)
    case True
    with k l assms show ?thesis by (auto simp: sendEmail_def)
  next
    case False
    let ?te = "\<lparr>email_id = uid, status = pending, attempts = 0, provider = None,
                 lastAttempt = clock w, idempotencyKey = key\<rparr>"
    let ?s2 = "s1\<lparr>requestTimestamps := requestTimestamps s1 @ [clock w]\<rparr>"
    obtain f cbs te w2 where p: "provider_loop pl (providers ?s2) ?te w = (f, cbs, te, w2)"
      by (cases "provider_loop pl (providers ?s2) ?te w") auto
    note pr = provider_loop_record [OF p]
    from k l False p assms pr s1 show ?thesis
      by (cases f) (auto simp: sendEmail_def Let_def)
  qed
qed

lemma reachable_sent:
  assumes "reachable s"
  shows "(key \<in> sentEmailIds s) = (\<exists>r. emailStatus s key = Some r \<and> status r = sent)"
  using assms
proof (induction arbitrary: key rule: reachable.induct)
  case (fresh ps s)
  then show ?case by (auto simp: new_EmailService_def split: if_splits)
next
  case (call s pl k uid w r s' w')
  from sendEmail_cases [OF call.hyps(2)] call.IH show ?case
    by (auto simp: isRateLimited_def Let_def split: if_splits)
qed

lemma sendEmail_admitted:
  assumes "key \<notin> sentEmailIds s" and "\<not> fst (isRateLimited (clock w) s)"
  shows "fst (sendEmail pl key uid s w) \<noteq> Inl RateLimitExceeded"
    and "requestTimestamps (fst (snd (sendEmail pl key uid s w)))
           = filter (\<lambda>t. clock w - t < RATE_LIMIT_WINDOW_MS) (requestTimestamps s) @ [clock w]"
proof -
  obtain res s' w' where c: "sendEmail pl key uid s w = (res, s', w')"
    by (cases "sendEmail pl key uid s w") auto
  from sendEmail_cases [OF c] assms c
  show "fst (sendEmail pl key uid s w) \<noteq> Inl RateLimitExceeded"
    by auto
  let ?te = "\<lparr>email_id = uid, status = pending, attempts = 0, provider = None,
               lastAttempt = clock w, idempotencyKey = key\<rparr>"
  obtain s1 where l: "isRateLimited (clock w) s = (False, s1)"
    using assms(2) by (cases "isRateLimited (clock w) s") auto
  then have r: "requestTimestamps s1
      = filter (\<lambda>t. clock w - t < RATE_LIMIT_WINDOW_MS) (requestTimestamps s)"
    by (auto simp: isRateLimited_def Let_def)
  obtain f cbs te w2
    where p: "provider_loop pl (providers (s1\<lparr>requestTimestamps := requestTimestamps s1 @ [clock w]\<rparr>))
                ?te w = (f, cbs, te, w2)"
    by (cases "provider_loop pl (providers (s1\<lparr>requestTimestamps := requestTimestamps s1 @ [clock w]\<rparr>)) ?te w")
      auto
  from assms(1) l p r
  show "requestTimestamps (fst (snd (sendEmail pl key uid s w)))
           = filter (\<lambda>t. clock w - t < RATE_LIMIT_WINDOW_MS) (requestTimestamps s) @ [clock w]"
    by (cases f) (simp_all add: sendEmail_def Let_def)
qed

subsection \<open>C3: the circuit breaker's state machine\<close>

lemma send_failure_counts:
  assumes "CircuitBreaker_send pl cb w = (Inl (ProviderError r), cb', w')"
  shows "failureCount cb' = Suc (failureCount cb)"
    and "failureThreshold \<le> failureCount cb' \<Longrightarrow> state cb' = OPEN"
  using assms
  by (auto simp: cb_defs Let_def split: if_splits outcome.splits prod.splits option.splits)

text \<open>
  Claim C3. Three consecutive sends whose wrapped call is rejected, with whatever
  reason, leave the breaker OPEN. While OPEN and \<open>now - lastFailureTime \<le> resetTimeout\<close> (30000 ms) a send
  throws the circuit-open error at once and leaves breaker and world as they were, so
  the wrapped provider is not invoked. Once more than \<open>resetTimeout\<close> has passed, the
  next send passes the gate as the HALF_OPEN probe (flag set) and invokes the
  provider; a send arriving while that probe is in flight, that is, on the breaker
  as the gate left it, throws the probe-in-progress error and invokes nothing. A probe
  that succeeds leaves the breaker CLOSED with \<open>failureCount = 0\<close> and the flag
  cleared.
\<close>

theorem circuit_breaker_state_machine:
  "(CircuitBreaker_send pl cb w = (Inl (ProviderError r1), cb1, w1) \<and>
    CircuitBreaker_send pl cb1 v1 = (Inl (ProviderError r2), cb2, w2) \<and>
    CircuitBreaker_send pl cb2 v2 = (Inl (ProviderError r3), cb3, w3)
      \<longrightarrow> state cb3 = OPEN)
   \<and> (state cb = OPEN \<and> clock w - lastFailureTime cb \<le> resetTimeout
      \<longrightarrow> CircuitBreaker_send pl cb w = (Inl CircuitOpenError, cb, w))
   \<and> (state cb = OPEN \<and> clock w - lastFailureTime cb > resetTimeout
      \<longrightarrow> send_gate (clock w) cb
            = (None, cb\<lparr>state := HALF_OPEN, halfOpenRequestPending := True\<rparr>)
        \<and> trace (snd (snd (CircuitBreaker_send pl cb w)))
            = trace w @ [Invoke (getName cb)]
        \<and> send_gate now2 (snd (send_gate (clock w) cb))
            = (Some HalfOpenBusyError, snd (send_gate (clock w) cb))
        \<and> CircuitBreaker_send pl (snd (send_gate (clock w) cb)) v
            = (Inl HalfOpenBusyError, snd (send_gate (clock w) cb), v))
   \<and> (state cb = OPEN \<and> clock w - lastFailureTime cb > resetTimeout \<and>
       respond (cb_provider cb) pl (sendCalledCount (cb_provider cb)) = Resolves True nm
      \<longrightarrow> fst (CircuitBreaker_send pl cb w) = Inr (True, nm)
        \<and> state (fst (snd (CircuitBreaker_send pl cb w))) = CLOSED
        \<and> failureCount (fst (snd (CircuitBreaker_send pl cb w))) = 0
        \<and> \<not> halfOpenRequestPending (fst (snd (CircuitBreaker_send pl cb w))))"
proof (intro conjI impI)
  assume a: "CircuitBreaker_send pl cb w = (Inl (ProviderError r1), cb1, w1) \<and>
    CircuitBreaker_send pl cb1 v1 = (Inl (ProviderError r2), cb2, w2) \<and>
    CircuitBreaker_send pl cb2 v2 = (Inl (ProviderError r3), cb3, w3)"
  then have "failureCount cb3 = Suc (Suc (Suc (failureCount cb)))"
    using send_failure_counts(1) by metis
  then have "failureThreshold \<le> failureCount cb3"
    by (simp add: failureThreshold_def)
  with a show "state cb3 = OPEN"
    using send_failure_counts(2) by blast
qed (auto simp: cb_defs getName_def Let_def split: outcome.splits)

theorem circuit_breaker_state_machine_witness:
  "CircuitBreaker_send emailPayload (breaker True 0 CLOSED 0 0 False) (at_time 1000000)
     = (Inl (ProviderError ErrorValue), breaker True 1 CLOSED 1 1000000 False,
        \<lparr>clock = 1000000, trace = [Invoke ''Provider1'']\<rparr>)
   \<and> CircuitBreaker_send emailPayload (breaker True 1 CLOSED 1 1000000 False) (at_time 1000200)
     = (Inl (ProviderError ErrorValue), breaker True 2 CLOSED 2 1000200 False,
        \<lparr>clock = 1000200, trace = [Invoke ''Provider1'']\<rparr>)
   \<and> CircuitBreaker_send emailPayload (breaker True 2 CLOSED 2 1000200 False) (at_time 1000600)
     = (Inl (ProviderError ErrorValue), breaker True 3 OPEN 3 1000600 False,
        \<lparr>clock = 1000600, trace = [Invoke ''Provider1'']\<rparr>)
   \<and> state (breaker True 3 OPEN 3 1000600 False) = OPEN
   \<and> clock (at_time 1030600) - lastFailureTime (breaker True 3 OPEN 3 1000600 False)
        \<le> resetTimeout
   \<and> CircuitBreaker_send emailPayload (breaker True 3 OPEN 3 1000600 False) (at_time 1030600)
     = (Inl CircuitOpenError, breaker True 3 OPEN 3 1000600 False, at_time 1030600)
   \<and> clock (at_time 1030601) - lastFailureTime (breaker False 3 OPEN 3 1000600 False)
        > resetTimeout
   \<and> send_gate 1030601 (breaker False 3 OPEN 3 1000600 False)
     = (None, breaker False 3 HALF_OPEN 3 1000600 True)
   \<and> trace (snd (snd (CircuitBreaker_send emailPayload (breaker False 3 OPEN 3 1000600 False)
                         (at_time 1030601))))
     = [Invoke ''Provider1'']
   \<and> send_gate 1030650 (breaker False 3 HALF_OPEN 3 1000600 True)
     = (Some HalfOpenBusyError, breaker False 3 HALF_OPEN 3 1000600 True)
   \<and> CircuitBreaker_send emailPayload (breaker False 3 HALF_OPEN 3 1000600 True)
        (at_time 1030650)
     = (Inl HalfOpenBusyError, breaker False 3 HALF_OPEN 3 1000600 True, at_time 1030650)
   \<and> respond (cb_provider (breaker False 3 OPEN 3 1000600 False)) emailPayload
        (sendCalledCount (cb_provider (breaker False 3 OPEN 3 1000600 False)))
     = Resolves True ''Provider1''
   \<and> CircuitBreaker_send emailPayload (breaker False 3 OPEN 3 1000600 False) (at_time 1030601)
     = (Inr (True, ''Provider1''), breaker False 4 CLOSED 0 1000600 False,
        \<lparr>clock = 1030601, trace = [Invoke ''Provider1'']\<rparr>)"
proof -
  have s1: "CircuitBreaker_send emailPayload (breaker True 0 CLOSED 0 0 False) (at_time 1000000)
     = (Inl (ProviderError ErrorValue), breaker True 1 CLOSED 1 1000000 False,
        \<lparr>clock = 1000000, trace = [Invoke ''Provider1'']\<rparr>)"
    by (simp add: ev)
  have s2: "CircuitBreaker_send emailPayload (breaker True 1 CLOSED 1 1000000 False) (at_time 1000200)
     = (Inl (ProviderError ErrorValue), breaker True 2 CLOSED 2 1000200 False,
        \<lparr>clock = 1000200, trace = [Invoke ''Provider1'']\<rparr>)"
    by (simp add: ev)
  have s3: "CircuitBreaker_send emailPayload (breaker True 2 CLOSED 2 1000200 False) (at_time 1000600)
     = (Inl (ProviderError ErrorValue), breaker True 3 OPEN 3 1000600 False,
        \<lparr>clock = 1000600, trace = [Invoke ''Provider1'']\<rparr>)"
    by (simp add: ev)
  have o1: "state (breaker True 3 OPEN 3 1000600 False) = OPEN \<and>
      clock (at_time 1030600) - lastFailureTime (breaker True 3 OPEN 3 1000600 False)
        \<le> resetTimeout"
    by (simp add: ev)
  have o2: "state (breaker False 3 OPEN 3 1000600 False) = OPEN \<and>
      clock (at_time 1030601) - lastFailureTime (breaker False 3 OPEN 3 1000600 False)
        > resetTimeout"
    by (simp add: ev)
  have g: "snd (send_gate (clock (at_time 1030601)) (breaker False 3 OPEN 3 1000600 False))
      = breaker False 3 HALF_OPEN 3 1000600 True"
    by (simp add: ev)
  have r: "respond (cb_provider (breaker False 3 OPEN 3 1000600 False)) emailPayload
        (sendCalledCount (cb_provider (breaker False 3 OPEN 3 1000600 False)))
     = Resolves True ''Provider1''"
    by (simp add: ev)
  have c: "CircuitBreaker_send emailPayload (breaker False 3 OPEN 3 1000600 False) (at_time 1030601)
     = (Inr (True, ''Provider1''), breaker False 4 CLOSED 0 1000600 False,
        \<lparr>clock = 1030601, trace = [Invoke ''Provider1'']\<rparr>)"
    by (simp add: ev)
  note a = circuit_breaker_state_machine
    [where pl = emailPayload and cb = "breaker True 0 CLOSED 0 0 False"
       and w = "at_time 1000000" and ?r1.0 = ErrorValue
       and ?cb1.0 = "breaker True 1 CLOSED 1 1000000 False" and ?v1.0 = "at_time 1000200"
       and ?r2.0 = ErrorValue and ?cb2.0 = "breaker True 2 CLOSED 2 1000200 False"
       and ?v2.0 = "at_time 1000600" and ?r3.0 = ErrorValue
       and ?cb3.0 = "breaker True 3 OPEN 3 1000600 False"]
  note b = circuit_breaker_state_machine
    [where pl = emailPayload and cb = "breaker True 3 OPEN 3 1000600 False"
       and w = "at_time 1030600"]
  note d = circuit_breaker_state_machine
    [where pl = emailPayload and cb = "breaker False 3 OPEN 3 1000600 False"
       and w = "at_time 1030601" and ?now2.0 = 1030650 and v = "at_time 1030650"
       and nm = "''Provider1''"]
  from a s1 s2 s3 have p1: "state (breaker True 3 OPEN 3 1000600 False) = OPEN"
    by blast
  from b o1 have p2: "CircuitBreaker_send emailPayload (breaker True 3 OPEN 3 1000600 False) (at_time 1030600)
     = (Inl CircuitOpenError, breaker True 3 OPEN 3 1000600 False, at_time 1030600)"
    by blast
  from d o2 have p3: "send_gate (clock (at_time 1030601)) (breaker False 3 OPEN 3 1000600 False)
            = (None, (breaker False 3 OPEN 3 1000600 False)\<lparr>state := HALF_OPEN, halfOpenRequestPending := True\<rparr>)
        \<and> trace (snd (snd (CircuitBreaker_send emailPayload (breaker False 3 OPEN 3 1000600 False) (at_time 1030601))))
            = trace (at_time 1030601) @ [Invoke (getName (breaker False 3 OPEN 3 1000600 False))]
        \<and> send_gate 1030650 (snd (send_gate (clock (at_time 1030601)) (breaker False 3 OPEN 3 1000600 False)))
            = (Some HalfOpenBusyError, snd (send_gate (clock (at_time 1030601)) (breaker False 3 OPEN 3 1000600 False)))
        \<and> CircuitBreaker_send emailPayload (snd (send_gate (clock (at_time 1030601)) (breaker False 3 OPEN 3 1000600 False))) (at_time 1030650)
            = (Inl HalfOpenBusyError, snd (send_gate (clock (at_time 1030601)) (breaker False 3 OPEN 3 1000600 False)), at_time 1030650)"
    by blast
  from p3 have p3': "send_gate 1030601 (breaker False 3 OPEN 3 1000600 False)
     = (None, breaker False 3 HALF_OPEN 3 1000600 True)
   \<and> trace (snd (snd (CircuitBreaker_send emailPayload (breaker False 3 OPEN 3 1000600 False)
                         (at_time 1030601))))
     = [Invoke ''Provider1'']
   \<and> send_gate 1030650 (breaker False 3 HALF_OPEN 3 1000600 True)
     = (Some HalfOpenBusyError, breaker False 3 HALF_OPEN 3 1000600 True)
   \<and> CircuitBreaker_send emailPayload (breaker False 3 HALF_OPEN 3 1000600 True)
        (at_time 1030650)
     = (Inl HalfOpenBusyError, breaker False 3 HALF_OPEN 3 1000600 True, at_time 1030650)"
    unfolding g by (simp add: breaker_def at_time_def getName_def ControllableMockProvider_def)
  from s1 s2 s3 p1 o1 p2 o2 p3' r c show ?thesis by blast
qed

subsection \<open>C4: a rejected call changes nothing\<close>

text \<open>
  Claim C4. When the call reaches the rate limiter (its key is not in \<open>sentEmailIds\<close>)
  and the timestamps retained within the window number at least \<open>RATE_LIMIT_COUNT\<close>,
  \<open>sendEmail\<close> throws the rate-limit error; the status map (so no record is created for
  the key), the sent keys, the breakers with their providers' call counts and the
  trace are as before, and the window is the old one pruned: nothing is appended.
\<close>

theorem rate_limited_call_changes_nothing:
  assumes "key \<notin> sentEmailIds s"
    and "RATE_LIMIT_COUNT \<le>
           length (filter (\<lambda>t. clock w - t < RATE_LIMIT_WINDOW_MS) (requestTimestamps s))"
  shows "sendEmail pl key uid s w =
           (Inl RateLimitExceeded,
            s\<lparr>requestTimestamps :=
                 filter (\<lambda>t. clock w - t < RATE_LIMIT_WINDOW_MS) (requestTimestamps s)\<rparr>,
            w)
         \<and> getEmailStatus (fst (snd (sendEmail pl key uid s w))) key = getEmailStatus s key
         \<and> emailStatus (fst (snd (sendEmail pl key uid s w))) = emailStatus s
         \<and> sentEmailIds (fst (snd (sendEmail pl key uid s w))) = sentEmailIds s
         \<and> providers (fst (snd (sendEmail pl key uid s w))) = providers s
         \<and> trace (snd (snd (sendEmail pl key uid s w))) = trace w
         \<and> length (requestTimestamps (fst (snd (sendEmail pl key uid s w))))
             \<le> length (requestTimestamps s)
         \<and> set (requestTimestamps (fst (snd (sendEmail pl key uid s w))))
             \<subseteq> set (requestTimestamps s)"
  using assms by (auto simp add: sendEmail_def isRateLimited_def getEmailStatus_def Let_def)

theorem rate_limited_call_changes_nothing_witness:
  "''rate-6'' \<notin> sentEmailIds (fst after_five)
   \<and> RATE_LIMIT_COUNT \<le>
         length (filter (\<lambda>t. clock (snd after_five) - t < RATE_LIMIT_WINDOW_MS)
                   (requestTimestamps (fst after_five)))
   \<and> sendEmail emailPayload ''rate-6'' ''uuid-6'' (fst after_five) (snd after_five)
       = (Inl RateLimitExceeded, fst after_five, snd after_five)
   \<and> getEmailStatus (fst after_five) ''rate-6'' = None"
proof -
  have h1: "''rate-6'' \<notin> sentEmailIds (fst after_five)"
    by (simp add: after_five_window)
  have h2: "RATE_LIMIT_COUNT \<le>
         length (filter (\<lambda>t. clock (snd after_five) - t < RATE_LIMIT_WINDOW_MS)
                   (requestTimestamps (fst after_five)))"
    by (simp add: after_five_window const_defs)
  have f: "filter (\<lambda>t. clock (snd after_five) - t < RATE_LIMIT_WINDOW_MS)
                   (requestTimestamps (fst after_five)) = requestTimestamps (fst after_five)"
    by (simp add: after_five_window const_defs)
  have n: "getEmailStatus (fst after_five) ''rate-6'' = None"
    by (simp add: after_five_def rate_keys_def svc_defs ev upt_rec)
  from rate_limited_call_changes_nothing [OF h1 h2, of emailPayload "''uuid-6''"]
  have "sendEmail emailPayload ''rate-6'' ''uuid-6'' (fst after_five) (snd after_five)
       = (Inl RateLimitExceeded, fst after_five, snd after_five)"
    unfolding f by simp
  with h1 h2 n show ?thesis by blast
qed

subsection \<open>C8: the sliding window\<close>

text \<open>
  Claim C8. With \<open>RATE_LIMIT_COUNT = 5\<close> and \<open>RATE_LIMIT_WINDOW_MS = 10000\<close>: when the
  window holds at least five timestamps, all less than ten seconds old, a call that
  reaches the limiter throws the rate-limit error; when every timestamp is ten seconds
  old or more, the call is admitted (it does not throw the rate-limit error) and the
  window is pruned to the new timestamp alone; and every admitted call appends its own
  timestamp to the pruned window, which is how five admitted calls fill it.
\<close>

theorem sliding_window_rate_limit:
  "(key \<notin> sentEmailIds s \<and> RATE_LIMIT_COUNT \<le> length (requestTimestamps s) \<and>
    (\<forall>t \<in> set (requestTimestamps s). clock w - t < RATE_LIMIT_WINDOW_MS)
      \<longrightarrow> fst (sendEmail pl key uid s w) = Inl RateLimitExceeded)
   \<and> (key \<notin> sentEmailIds s \<and>
       (\<forall>t \<in> set (requestTimestamps s). clock w - t \<ge> RATE_LIMIT_WINDOW_MS)
      \<longrightarrow> fst (sendEmail pl key uid s w) \<noteq> Inl RateLimitExceeded
          \<and> requestTimestamps (fst (snd (sendEmail pl key uid s w))) = [clock w])
   \<and> (key \<notin> sentEmailIds s \<and>
       length (filter (\<lambda>t. clock w - t < RATE_LIMIT_WINDOW_MS) (requestTimestamps s))
         < RATE_LIMIT_COUNT
      \<longrightarrow> fst (sendEmail pl key uid s w) \<noteq> Inl RateLimitExceeded
          \<and> requestTimestamps (fst (snd (sendEmail pl key uid s w)))
              = filter (\<lambda>t. clock w - t < RATE_LIMIT_WINDOW_MS) (requestTimestamps s)
                  @ [clock w])"
proof (intro conjI impI)
  assume a: "key \<notin> sentEmailIds s \<and> RATE_LIMIT_COUNT \<le> length (requestTimestamps s) \<and>
    (\<forall>t \<in> set (requestTimestamps s). clock w - t < RATE_LIMIT_WINDOW_MS)"
  then have "filter (\<lambda>t. clock w - t < RATE_LIMIT_WINDOW_MS) (requestTimestamps s)
               = requestTimestamps s"
    by (simp add: filter_id_conv)
  with a show "fst (sendEmail pl key uid s w) = Inl RateLimitExceeded"
    by (simp add: sendEmail_def isRateLimited_def Let_def)
next
  assume a: "key \<notin> sentEmailIds s \<and>
       (\<forall>t \<in> set (requestTimestamps s). clock w - t \<ge> RATE_LIMIT_WINDOW_MS)"
  then have f: "filter (\<lambda>t. clock w - t < RATE_LIMIT_WINDOW_MS) (requestTimestamps s) = []"
    by (auto simp: filter_empty_conv)
  with a have "key \<notin> sentEmailIds s" and "\<not> fst (isRateLimited (clock w) s)"
    by (simp_all add: isRateLimited_def Let_def RATE_LIMIT_COUNT_def)
  from sendEmail_admitted [OF this] f
  show "fst (sendEmail pl key uid s w) \<noteq> Inl RateLimitExceeded"
    and "requestTimestamps (fst (snd (sendEmail pl key uid s w))) = [clock w]"
    by simp_all
next
  assume a: "key \<notin> sentEmailIds s \<and>
       length (filter (\<lambda>t. clock w - t < RATE_LIMIT_WINDOW_MS) (requestTimestamps s))
         < RATE_LIMIT_COUNT"
  then have "key \<notin> sentEmailIds s" and "\<not> fst (isRateLimited (clock w) s)"
    by (simp_all add: isRateLimited_def Let_def)
  from sendEmail_admitted [OF this]
  show "fst (sendEmail pl key uid s w) \<noteq> Inl RateLimitExceeded"
    and "requestTimestamps (fst (snd (sendEmail pl key uid s w)))
              = filter (\<lambda>t. clock w - t < RATE_LIMIT_WINDOW_MS) (requestTimestamps s)
                  @ [clock w]"
    by simp_all
qed

theorem sliding_window_rate_limit_witness:
  "''rate-7'' \<notin> sentEmailIds (fst after_five)
   \<and> requestTimestamps (fst after_five) = [1000000, 1000000, 1000000, 1000000, 1000000]
   \<and> RATE_LIMIT_COUNT = 5 \<and> RATE_LIMIT_WINDOW_MS = 10000
   \<and> fst (sendEmail emailPayload ''rate-7'' ''uuid-7'' (fst after_five) (at_time 1009999))
       = Inl RateLimitExceeded
   \<and> fst (sendEmail emailPayload ''rate-7'' ''uuid-7'' (fst after_five) (at_time 1010000))
       = Inr (Some \<lparr>email_id = ''uuid-7'', status = sent, attempts = 1,
                     provider = Some ''Provider1'', lastAttempt = 1010000,
                     idempotencyKey = ''rate-7''\<rparr>)
   \<and> requestTimestamps
        (fst (snd (sendEmail emailPayload ''rate-7'' ''uuid-7'' (fst after_five)
                     (at_time 1010000))))
       = [1010000]
   \<and> requestTimestamps (emailService False False) = []
   \<and> requestTimestamps
        (fst (snd (sendEmail emailPayload ''rate-1'' ''uuid-1'' (emailService False False)
                     world0)))
       = [1000000]"
proof -
  have k: "''rate-7'' \<notin> sentEmailIds (fst after_five)"
    by (simp add: after_five_window)
  have ts: "requestTimestamps (fst after_five) = [1000000, 1000000, 1000000, 1000000, 1000000]"
    by (simp add: after_five_window)
  have c: "RATE_LIMIT_COUNT = 5 \<and> RATE_LIMIT_WINDOW_MS = 10000"
    by (simp add: const_defs)
  have h1: "''rate-7'' \<notin> sentEmailIds (fst after_five) \<and>
      RATE_LIMIT_COUNT \<le> length (requestTimestamps (fst after_five)) \<and>
      (\<forall>t \<in> set (requestTimestamps (fst after_five)).
          clock (at_time 1009999) - t < RATE_LIMIT_WINDOW_MS)"
    by (simp add: after_five_window const_defs at_time_def)
  have h2: "''rate-7'' \<notin> sentEmailIds (fst after_five) \<and>
      (\<forall>t \<in> set (requestTimestamps (fst after_five)).
          clock (at_time 1010000) - t \<ge> RATE_LIMIT_WINDOW_MS)"
    by (simp add: after_five_window const_defs at_time_def)
  have h3: "''rate-1'' \<notin> sentEmailIds (emailService False False) \<and>
       length (filter (\<lambda>t. clock world0 - t < RATE_LIMIT_WINDOW_MS)
                 (requestTimestamps (emailService False False)))
         < RATE_LIMIT_COUNT"
    by (simp add: ev)
  have e: "fst (sendEmail emailPayload ''rate-7'' ''uuid-7'' (fst after_five) (at_time 1010000))
       = Inr (Some \<lparr>email_id = ''uuid-7'', status = sent, attempts = 1,
                     provider = Some ''Provider1'', lastAttempt = 1010000,
                     idempotencyKey = ''rate-7''\<rparr>)"
    by (simp add: after_five_def rate_keys_def svc_defs ev upt_rec)
  have z: "requestTimestamps (emailService False False) = []"
    by (simp add: ev)
  from sliding_window_rate_limit
         [of "''rate-7''" "fst after_five" "at_time 1009999" emailPayload "''uuid-7''"] h1
  have p1: "fst (sendEmail emailPayload ''rate-7'' ''uuid-7'' (fst after_five) (at_time 1009999))
       = Inl RateLimitExceeded"
    by blast
  from sliding_window_rate_limit
         [of "''rate-7''" "fst after_five" "at_time 1010000" emailPayload "''uuid-7''"] h2
  have p2: "requestTimestamps
        (fst (snd (sendEmail emailPayload ''rate-7'' ''uuid-7'' (fst after_five)
                     (at_time 1010000))))
       = [clock (at_time 1010000)]"
    by blast
  from sliding_window_rate_limit
         [of "''rate-1''" "emailService False False" world0 emailPayload "''uuid-1''"] h3
  have p3: "requestTimestamps
        (fst (snd (sendEmail emailPayload ''rate-1'' ''uuid-1'' (emailService False False)
                     world0)))
       = filter (\<lambda>t. clock world0 - t < RATE_LIMIT_WINDOW_MS)
           (requestTimestamps (emailService False False)) @ [clock world0]"
    by blast
  from p2 have p2': "requestTimestamps
        (fst (snd (sendEmail emailPayload ''rate-7'' ''uuid-7'' (fst after_five)
                     (at_time 1010000))))
       = [1010000]"
    by (simp add: at_time_def)
  from p3 have p3': "requestTimestamps
        (fst (snd (sendEmail emailPayload ''rate-1'' ''uuid-1'' (emailService False False)
                     world0)))
       = [1000000]"
    unfolding z by (simp add: world0_def)
  from k ts c p1 e p2' z p3' show ?thesis by blast
qed

subsection \<open>C7: the backoff schedule\<close>

lemma waits_append: "waits (xs @ ys) = waits xs @ waits ys"
  by (induction xs rule: waits.induct) simp_all

lemma send_rejecting:
  assumes "\<forall>n. respond (cb_provider cb) pl n = Rejects ErrorValue"
  shows "\<exists>e cb' w'. CircuitBreaker_send pl cb w = (Inl e, cb', w')
           \<and> e \<noteq> ProviderError Nullish
           \<and> respond (cb_provider cb') = respond (cb_provider cb)
           \<and> waits (trace w') = waits (trace w)"
  using assms
  by (auto simp: cb_defs Let_def waits_append split: outcome.splits)

lemma attempt_throw:
  assumes "CircuitBreaker_send pl cb w = (Inl e, cb', w')" and "e \<noteq> ProviderError Nullish"
  shows "attempt pl i cb te w =
           (Continues, cb', te\<lparr>attempts := Suc (attempts te), lastAttempt := clock w\<rparr>,
            if i < MAX_RETRIES
            then w'\<lparr>clock := clock w' + 2 ^ i * 200, trace := trace w' @ [Wait (2 ^ i * 200)]\<rparr>
            else w')"
  using assms by (simp add: attempt_def wait_def message_throws_def Let_def)

lemma attempt_rejecting:
  assumes "\<forall>n. respond (cb_provider cb) pl n = Rejects ErrorValue"
  shows "\<exists>cb' te' w'. attempt pl i cb te w = (Continues, cb', te', w')
           \<and> respond (cb_provider cb') = respond (cb_provider cb)
           \<and> attempts te' = Suc (attempts te)
           \<and> waits (trace w') = waits (trace w) @ (if i < MAX_RETRIES then [2 ^ i * 200] else [])"
proof -
  from send_rejecting [OF assms, of w] obtain e cb' w'
    where s: "CircuitBreaker_send pl cb w = (Inl e, cb', w')"
      and e: "e \<noteq> ProviderError Nullish"
      and r: "respond (cb_provider cb') = respond (cb_provider cb)"
      and t: "waits (trace w') = waits (trace w)"
    by blast
  from attempt_throw [OF s e, of i te] r t show ?thesis
    by (auto simp: waits_append)
qed

lemma retry_loop_rejecting:
  assumes "\<forall>n. respond (cb_provider cb) pl n = Rejects ErrorValue"
  shows "\<exists>cb' te' w'. retry_loop pl [0..<Suc MAX_RETRIES] cb te w = (Continues, cb', te', w')
           \<and> respond (cb_provider cb') = respond (cb_provider cb)
           \<and> attempts te' = attempts te + 3
           \<and> waits (trace w') = waits (trace w) @ [200, 400]"
proof -
  from attempt_rejecting [OF assms, of 0 te w] obtain cb1 te1 w1
    where a1: "attempt pl 0 cb te w = (Continues, cb1, te1, w1)"
      and r1: "respond (cb_provider cb1) = respond (cb_provider cb)"
      and n1: "attempts te1 = Suc (attempts te)"
      and t1: "waits (trace w1) = waits (trace w) @ [200]"
    by (auto simp: MAX_RETRIES_def)
  from assms r1 have h1: "\<forall>n. respond (cb_provider cb1) pl n = Rejects ErrorValue" by simp
  from attempt_rejecting [OF h1, of 1 te1 w1] obtain cb2 te2 w2
    where a2: "attempt pl 1 cb1 te1 w1 = (Continues, cb2, te2, w2)"
      and r2: "respond (cb_provider cb2) = respond (cb_provider cb1)"
      and n2: "attempts te2 = Suc (attempts te1)"
      and t2: "waits (trace w2) = waits (trace w1) @ [400]"
    by (auto simp: MAX_RETRIES_def)
  from h1 r2 have h2: "\<forall>n. respond (cb_provider cb2) pl n = Rejects ErrorValue" by simp
  from attempt_rejecting [OF h2, of 2 te2 w2] obtain cb3 te3 w3
    where a3: "attempt pl 2 cb2 te2 w2 = (Continues, cb3, te3, w3)"
      and r3: "respond (cb_provider cb3) = respond (cb_provider cb2)"
      and n3: "attempts te3 = Suc (attempts te2)"
      and t3: "waits (trace w3) = waits (trace w2)"
    by (auto simp: MAX_RETRIES_def)
  have "[0..<Suc MAX_RETRIES] = [0, 1, 2]"
    by (simp add: MAX_RETRIES_def upt_rec)
  with a1 a2 a3 have "retry_loop pl [0..<Suc MAX_RETRIES] cb te w = (Continues, cb3, te3, w3)"
    by simp
  with r1 r2 r3 n1 n2 n3 t1 t2 t3 show ?thesis by simp
qed

text \<open>
  What the code does for every thrown value but \<^verbatim>\<open>undefined\<close> and \<^verbatim>\<open>null\<close>. A try
  with index \<open>i\<close> that throws such a value is followed by a wait of exactly
  \<open>200 * 2 ^ i\<close> ms when \<open>i < MAX_RETRIES\<close> and by no wait when it is the provider's last
  try. A try made while the breaker is OPEN within its timeout, or HALF_OPEN with a
  probe in flight, throws without reaching the provider, is counted in \<open>attempts\<close>
  like any other and gets the same wait. A provider whose calls are all rejected with
  an error value uses its three tries with the waits 200 and 400 between them, and the
  next provider's first try starts in the world the last try left, with no wait
  between.
\<close>

theorem backoff_schedule:
  "(CircuitBreaker_send pl cb w = (Inl e, cb', w') \<and> e \<noteq> ProviderError Nullish
      \<longrightarrow> attempt pl i cb te w =
            (Continues, cb', te\<lparr>attempts := Suc (attempts te), lastAttempt := clock w\<rparr>,
             if i < MAX_RETRIES
             then w'\<lparr>clock := clock w' + 200 * 2 ^ i, trace := trace w' @ [Wait (200 * 2 ^ i)]\<rparr>
             else w'))
   \<and> ((state cb = OPEN \<and> clock w - lastFailureTime cb \<le> resetTimeout) \<or>
       (state cb = HALF_OPEN \<and> halfOpenRequestPending cb)
      \<longrightarrow> attempt pl i cb te w =
            (Continues, cb, te\<lparr>attempts := Suc (attempts te), lastAttempt := clock w\<rparr>,
             if i < MAX_RETRIES
             then w\<lparr>clock := clock w + 200 * 2 ^ i, trace := trace w @ [Wait (200 * 2 ^ i)]\<rparr>
             else w))
   \<and> ((\<forall>n. respond (cb_provider cb) pl n = Rejects ErrorValue)
      \<longrightarrow> fst (retry_loop pl [0..<Suc MAX_RETRIES] cb te w) = Continues
        \<and> attempts (fst (snd (snd (retry_loop pl [0..<Suc MAX_RETRIES] cb te w))))
            = attempts te + 3
        \<and> waits (trace (snd (snd (snd (retry_loop pl [0..<Suc MAX_RETRIES] cb te w)))))
            = waits (trace w) @ [200, 400])
   \<and> (retry_loop pl [0..<Suc MAX_RETRIES] cb te w = (Continues, cb', te', w')
      \<longrightarrow> snd (snd (provider_loop pl (cb # cbs) te w)) = snd (snd (provider_loop pl cbs te' w')))"
proof (intro conjI impI)
  assume "CircuitBreaker_send pl cb w = (Inl e, cb', w') \<and> e \<noteq> ProviderError Nullish"
  then have s: "CircuitBreaker_send pl cb w = (Inl e, cb', w')"
    and e: "e \<noteq> ProviderError Nullish"
    by simp_all
  from attempt_throw [OF s e, of i te]
  show "attempt pl i cb te w =
            (Continues, cb', te\<lparr>attempts := Suc (attempts te), lastAttempt := clock w\<rparr>,
             if i < MAX_RETRIES
             then w'\<lparr>clock := clock w' + 200 * 2 ^ i, trace := trace w' @ [Wait (200 * 2 ^ i)]\<rparr>
             else w')"
    by (simp add: mult.commute)
next
  assume "(state cb = OPEN \<and> clock w - lastFailureTime cb \<le> resetTimeout) \<or>
       (state cb = HALF_OPEN \<and> halfOpenRequestPending cb)"
  then have "\<exists>e. CircuitBreaker_send pl cb w = (Inl e, cb, w) \<and> e \<noteq> ProviderError Nullish"
    by (auto simp: cb_defs Let_def)
  then obtain e where s: "CircuitBreaker_send pl cb w = (Inl e, cb, w)"
    and e: "e \<noteq> ProviderError Nullish"
    by blast
  from attempt_throw [OF s e, of i te]
  show "attempt pl i cb te w =
            (Continues, cb, te\<lparr>attempts := Suc (attempts te), lastAttempt := clock w\<rparr>,
             if i < MAX_RETRIES
             then w\<lparr>clock := clock w + 200 * 2 ^ i, trace := trace w @ [Wait (200 * 2 ^ i)]\<rparr>
             else w)"
    by (simp add: mult.commute)
next
  assume a: "\<forall>n. respond (cb_provider cb) pl n = Rejects ErrorValue"
  from retry_loop_rejecting [OF a, of te w]
  show "fst (retry_loop pl [0..<Suc MAX_RETRIES] cb te w) = Continues"
    and "attempts (fst (snd (snd (retry_loop pl [0..<Suc MAX_RETRIES] cb te w))))
            = attempts te + 3"
    and "waits (trace (snd (snd (snd (retry_loop pl [0..<Suc MAX_RETRIES] cb te w)))))
            = waits (trace w) @ [200, 400]"
    by auto
next
  assume "retry_loop pl [0..<Suc MAX_RETRIES] cb te w = (Continues, cb', te', w')"
  then show "snd (snd (provider_loop pl (cb # cbs) te w)) = snd (snd (provider_loop pl cbs te' w'))"
    by (simp split: prod.splits)
qed

theorem backoff_schedule_witness:
  "CircuitBreaker_send emailPayload (breaker True 0 CLOSED 0 0 False) (at_time 1000000)
     = (Inl (ProviderError ErrorValue), breaker True 1 CLOSED 1 1000000 False,
        \<lparr>clock = 1000000, trace = [Invoke ''Provider1'']\<rparr>)
   \<and> attempt emailPayload 0 (breaker True 0 CLOSED 0 0 False) pending_record (at_time 1000000)
     = (Continues, breaker True 1 CLOSED 1 1000000 False,
        pending_record\<lparr>attempts := 1, lastAttempt := 1000000\<rparr>,
        \<lparr>clock = 1000200, trace = [Invoke ''Provider1'', Wait 200]\<rparr>)
   \<and> state (breaker True 3 OPEN 3 1000600 False) = OPEN
   \<and> clock (at_time 1000600) - lastFailureTime (breaker True 3 OPEN 3 1000600 False)
        \<le> resetTimeout
   \<and> attempt emailPayload 1 (breaker True 3 OPEN 3 1000600 False) pending_record (at_time 1000600)
     = (Continues, breaker True 3 OPEN 3 1000600 False,
        pending_record\<lparr>attempts := 1, lastAttempt := 1000600\<rparr>,
        \<lparr>clock = 1001000, trace = [Wait 400]\<rparr>)
   \<and> attempt emailPayload 2 (breaker True 3 OPEN 3 1000600 False) pending_record (at_time 1000600)
     = (Continues, breaker True 3 OPEN 3 1000600 False,
        pending_record\<lparr>attempts := 1, lastAttempt := 1000600\<rparr>,
        at_time 1000600)
   \<and> (\<forall>n. respond (cb_provider (breaker True 0 CLOSED 0 0 False)) emailPayload n = Rejects ErrorValue)
   \<and> retry_loop emailPayload [0..<Suc MAX_RETRIES] (breaker True 0 CLOSED 0 0 False)
        pending_record (at_time 1000000)
     = (Continues, breaker True 3 OPEN 3 1000600 False,
        pending_record\<lparr>attempts := 3, lastAttempt := 1000600\<rparr>,
        \<lparr>clock = 1000600,
         trace = [Invoke ''Provider1'', Wait 200, Invoke ''Provider1'', Wait 400,
                  Invoke ''Provider1'']\<rparr>)
   \<and> waits (trace (snd (snd (snd
        (retry_loop emailPayload [0..<Suc MAX_RETRIES] (breaker True 0 CLOSED 0 0 False)
           pending_record (at_time 1000000))))))
     = [200, 400]
   \<and> snd (snd (provider_loop emailPayload
                 [breaker True 0 CLOSED 0 0 False, breaker True 3 OPEN 3 1000600 False]
                 pending_record (at_time 1000000)))
     = (pending_record\<lparr>attempts := 6, lastAttempt := 1001200\<rparr>,
        \<lparr>clock = 1001200,
         trace = [Invoke ''Provider1'', Wait 200, Invoke ''Provider1'', Wait 400,
                  Invoke ''Provider1'', Wait 200, Wait 400]\<rparr>)"
proof -
  have s: "CircuitBreaker_send emailPayload (breaker True 0 CLOSED 0 0 False) (at_time 1000000)
     = (Inl (ProviderError ErrorValue), breaker True 1 CLOSED 1 1000000 False,
        \<lparr>clock = 1000000, trace = [Invoke ''Provider1'']\<rparr>)"
    by (simp add: ev)
  have o: "(state (breaker True 3 OPEN 3 1000600 False) = OPEN
      \<and> clock (at_time 1000600) - lastFailureTime (breaker True 3 OPEN 3 1000600 False)
        \<le> resetTimeout)
      \<or> (state (breaker True 3 OPEN 3 1000600 False) = HALF_OPEN
          \<and> halfOpenRequestPending (breaker True 3 OPEN 3 1000600 False))"
    by (simp add: ev)
  have o': "state (breaker True 3 OPEN 3 1000600 False) = OPEN
      \<and> clock (at_time 1000600) - lastFailureTime (breaker True 3 OPEN 3 1000600 False)
        \<le> resetTimeout"
    by (simp add: ev)
  have r: "\<forall>n. respond (cb_provider (breaker True 0 CLOSED 0 0 False)) emailPayload n = Rejects ErrorValue"
    by (simp add: ev)
  have l: "retry_loop emailPayload [0..<Suc MAX_RETRIES] (breaker True 0 CLOSED 0 0 False)
        pending_record (at_time 1000000)
     = (Continues, breaker True 3 OPEN 3 1000600 False,
        pending_record\<lparr>attempts := 3, lastAttempt := 1000600\<rparr>,
        \<lparr>clock = 1000600,
         trace = [Invoke ''Provider1'', Wait 200, Invoke ''Provider1'', Wait 400,
                  Invoke ''Provider1'']\<rparr>)"
    by (simp add: ev svc_defs pending_record_def upt_rec)
  have l2: "snd (snd (provider_loop emailPayload [breaker True 3 OPEN 3 1000600 False]
        (pending_record\<lparr>attempts := 3, lastAttempt := 1000600\<rparr>)
        \<lparr>clock = 1000600,
         trace = [Invoke ''Provider1'', Wait 200, Invoke ''Provider1'', Wait 400,
                  Invoke ''Provider1'']\<rparr>))
     = (pending_record\<lparr>attempts := 6, lastAttempt := 1001200\<rparr>,
        \<lparr>clock = 1001200,
         trace = [Invoke ''Provider1'', Wait 200, Invoke ''Provider1'', Wait 400,
                  Invoke ''Provider1'', Wait 200, Wait 400]\<rparr>)"
    by (simp add: ev svc_defs pending_record_def upt_rec)
  note t0 = backoff_schedule
    [of emailPayload "breaker True 0 CLOSED 0 0 False" "at_time 1000000"
        "ProviderError ErrorValue"
        "breaker True 1 CLOSED 1 1000000 False"
        "\<lparr>clock = 1000000, trace = [Invoke ''Provider1'']\<rparr>" 0 pending_record]
  note t1 = backoff_schedule
    [of emailPayload "breaker True 3 OPEN 3 1000600 False" "at_time 1000600" _ _ _ 1
        pending_record]
  note t2 = backoff_schedule
    [of emailPayload "breaker True 3 OPEN 3 1000600 False" "at_time 1000600" _ _ _ 2
        pending_record]
  note t3 = backoff_schedule
    [of emailPayload "breaker True 0 CLOSED 0 0 False" "at_time 1000000" _
        "breaker True 3 OPEN 3 1000600 False"
        "\<lparr>clock = 1000600,
         trace = [Invoke ''Provider1'', Wait 200, Invoke ''Provider1'', Wait 400,
                  Invoke ''Provider1'']\<rparr>" _ pending_record
        "pending_record\<lparr>attempts := 3, lastAttempt := 1000600\<rparr>"
        "[breaker True 3 OPEN 3 1000600 False]"]
  have s': "CircuitBreaker_send emailPayload (breaker True 0 CLOSED 0 0 False) (at_time 1000000)
     = (Inl (ProviderError ErrorValue), breaker True 1 CLOSED 1 1000000 False,
        \<lparr>clock = 1000000, trace = [Invoke ''Provider1'']\<rparr>)
     \<and> ProviderError ErrorValue \<noteq> ProviderError Nullish"
    using s by simp
  note u0 = t0 [THEN conjunct1, THEN mp, OF s']
  note u1 = t1 [THEN conjunct2, THEN conjunct1, THEN mp, OF o]
  note u2 = t2 [THEN conjunct2, THEN conjunct1, THEN mp, OF o]
  note u3 = t3 [THEN conjunct2, THEN conjunct2, THEN conjunct1, THEN mp, OF r]
  note u4 = t3 [THEN conjunct2, THEN conjunct2, THEN conjunct2, THEN mp, OF l]
  from u0 have p0: "attempt emailPayload 0 (breaker True 0 CLOSED 0 0 False) pending_record (at_time 1000000)
     = (Continues, breaker True 1 CLOSED 1 1000000 False,
        pending_record\<lparr>attempts := 1, lastAttempt := 1000000\<rparr>,
        \<lparr>clock = 1000200, trace = [Invoke ''Provider1'', Wait 200]\<rparr>)"
    by (simp add: MAX_RETRIES_def at_time_def pending_record_def)
  from u1 have p1: "attempt emailPayload 1 (breaker True 3 OPEN 3 1000600 False) pending_record (at_time 1000600)
     = (Continues, breaker True 3 OPEN 3 1000600 False,
        pending_record\<lparr>attempts := 1, lastAttempt := 1000600\<rparr>,
        \<lparr>clock = 1001000, trace = [Wait 400]\<rparr>)"
    by (simp add: MAX_RETRIES_def at_time_def pending_record_def)
  from u2 have p2: "attempt emailPayload 2 (breaker True 3 OPEN 3 1000600 False) pending_record (at_time 1000600)
     = (Continues, breaker True 3 OPEN 3 1000600 False,
        pending_record\<lparr>attempts := 1, lastAttempt := 1000600\<rparr>,
        at_time 1000600)"
    by (simp add: MAX_RETRIES_def at_time_def pending_record_def)
  from u3 have p3: "waits (trace (snd (snd (snd
        (retry_loop emailPayload [0..<Suc MAX_RETRIES] (breaker True 0 CLOSED 0 0 False)
           pending_record (at_time 1000000))))))
     = [200, 400]"
    by (simp add: at_time_def)
  from u4 have "snd (snd (provider_loop emailPayload
                 [breaker True 0 CLOSED 0 0 False, breaker True 3 OPEN 3 1000600 False]
                 pending_record (at_time 1000000)))
     = snd (snd (provider_loop emailPayload [breaker True 3 OPEN 3 1000600 False]
        (pending_record\<lparr>attempts := 3, lastAttempt := 1000600\<rparr>)
        \<lparr>clock = 1000600,
         trace = [Invoke ''Provider1'', Wait 200, Invoke ''Provider1'', Wait 400,
                  Invoke ''Provider1'']\<rparr>))"
    by blast
  with l2 have p4: "snd (snd (provider_loop emailPayload
                 [breaker True 0 CLOSED 0 0 False, breaker True 3 OPEN 3 1000600 False]
                 pending_record (at_time 1000000)))
     = (pending_record\<lparr>attempts := 6, lastAttempt := 1001200\<rparr>,
        \<lparr>clock = 1001200,
         trace = [Invoke ''Provider1'', Wait 200, Invoke ''Provider1'', Wait 400,
                  Invoke ''Provider1'', Wait 200, Wait 400]\<rparr>)"
    by simp
  from s p0 o' p1 p2 r l p3 p4 show ?thesis by blast
qed

text \<open>
  Claim C7 asks for the wait after every failed try that is not the provider's last.
  The \<^verbatim>\<open>catch\<close> block reads the message of the caught value (line 100) before it
  waits (line 104). When the provider rejects with \<^verbatim>\<open>undefined\<close>, that read throws a
  \<^verbatim>\<open>TypeError\<close>, which leaves the \<^verbatim>\<open>catch\<close> block and \<^verbatim>\<open>sendEmail\<close>: on the fallback
  test with such a primary provider, the first try is followed by no wait, no second
  try and no fallback, and the record stays \<open>pending\<close> with \<open>attempts = 1\<close>.
\<close>

theorem nullish_rejection_skips_backoff:
  "CircuitBreaker_send emailPayload (nullish_breaker 0 0 0) world0
     = (Inl (ProviderError Nullish), nullish_breaker 1 1 1000000,
        \<lparr>clock = 1000000, trace = [Invoke ''Provider1'']\<rparr>)
   \<and> attempt emailPayload 0 (nullish_breaker 0 0 0) pending_record world0
     = (Thrown TypeError, nullish_breaker 1 1 1000000,
        pending_record\<lparr>attempts := 1, lastAttempt := 1000000\<rparr>,
        \<lparr>clock = 1000000, trace = [Invoke ''Provider1'']\<rparr>)
   \<and> fst nullish_once = Inl TypeError
   \<and> snd (snd nullish_once) = \<lparr>clock = 1000000, trace = [Invoke ''Provider1'']\<rparr>
   \<and> sendCalledCounts (fst (snd nullish_once)) = [1, 0]
   \<and> getEmailStatus (fst (snd nullish_once)) ''id-2''
     = Some \<lparr>email_id = ''uuid-1'', status = pending, attempts = 1, provider = None,
             lastAttempt = 1000000, idempotencyKey = ''id-2''\<rparr>"
  by (simp add: nullish_once_def nullish_service_def nullish_breaker_def pending_record_def
      svc_defs ev upt_rec)

subsection \<open>C10: a result resolved with success = false\<close>

text \<open>
  Claim C10. When a try reaches the provider (the gate lets it through) and the
  provider's \<^verbatim>\<open>send\<close> resolves with \<open>success = false\<close>, the breaker returns that result
  and resets: CLOSED, \<open>failureCount = 0\<close>, probe flag cleared, whatever the count was
  before, so such results never open the circuit. The try is counted in \<open>attempts\<close>,
  the trace gains the provider's invocation and no wait, and the loop goes on with the
  next try index at once.
\<close>

theorem unsuccessful_result_skips_backoff:
  assumes "fst (send_gate (clock w) cb) = None"
    and "respond (cb_provider cb) pl (sendCalledCount (cb_provider cb)) = Resolves False nm"
  shows "\<exists>cb'. CircuitBreaker_send pl cb w
                 = (Inr (False, nm), cb',
                    w\<lparr>clock := clock w + latency (cb_provider cb),
                      trace := trace w @ [Invoke (getName cb)]\<rparr>)
            \<and> attempt pl i cb te w
                 = (Continues, cb', te\<lparr>attempts := Suc (attempts te), lastAttempt := clock w\<rparr>,
                    w\<lparr>clock := clock w + latency (cb_provider cb),
                      trace := trace w @ [Invoke (getName cb)]\<rparr>)
            \<and> retry_loop pl (i # is) cb te w
                 = retry_loop pl is cb'
                     (te\<lparr>attempts := Suc (attempts te), lastAttempt := clock w\<rparr>)
                     (w\<lparr>clock := clock w + latency (cb_provider cb),
                        trace := trace w @ [Invoke (getName cb)]\<rparr>)
            \<and> state cb' = CLOSED \<and> failureCount cb' = 0 \<and> \<not> halfOpenRequestPending cb'
            \<and> sendCalledCount (cb_provider cb') = Suc (sendCalledCount (cb_provider cb))"
proof -
  obtain cb1 where g: "send_gate (clock w) cb = (None, cb1)"
    using assms(1) by (cases "send_gate (clock w) cb") auto
  then have p: "cb_provider cb1 = cb_provider cb"
    by (auto simp: send_gate_def Let_def split: if_splits)
  let ?w = "w\<lparr>clock := clock w + latency (cb_provider cb),
              trace := trace w @ [Invoke (getName cb)]\<rparr>"
  let ?cb = "reset (cb1\<lparr>cb_provider :=
                (cb_provider cb)\<lparr>sendCalledCount := Suc (sendCalledCount (cb_provider cb))\<rparr>\<rparr>)"
  from g p assms(2) have s: "CircuitBreaker_send pl cb w = (Inr (False, nm), ?cb, ?w)"
    by (simp add: CircuitBreaker_send_def provider_send_def send_settle_def getName_def)
  then have a: "attempt pl i cb te w
      = (Continues, ?cb, te\<lparr>attempts := Suc (attempts te), lastAttempt := clock w\<rparr>, ?w)"
    by (simp add: attempt_def Let_def)
  then have l: "retry_loop pl (i # is) cb te w
      = retry_loop pl is ?cb (te\<lparr>attempts := Suc (attempts te), lastAttempt := clock w\<rparr>) ?w"
    by simp
  have "state ?cb = CLOSED \<and> failureCount ?cb = 0 \<and> \<not> halfOpenRequestPending ?cb
      \<and> sendCalledCount (cb_provider ?cb) = Suc (sendCalledCount (cb_provider cb))"
    by (simp add: reset_def)
  with s a l show ?thesis by blast
qed

theorem unsuccessful_result_skips_backoff_witness:
  "fst (send_gate (clock (at_time 1000400)) (unsuccessful_breaker 2 2)) = None
   \<and> respond (cb_provider (unsuccessful_breaker 2 2)) emailPayload
        (sendCalledCount (cb_provider (unsuccessful_breaker 2 2)))
       = Resolves False ''Provider1''
   \<and> CircuitBreaker_send emailPayload (unsuccessful_breaker 2 2) (at_time 1000400)
       = (Inr (False, ''Provider1''), unsuccessful_breaker 3 0,
          \<lparr>clock = 1000400, trace = [Invoke ''Provider1'']\<rparr>)
   \<and> attempt emailPayload 0 (unsuccessful_breaker 2 2) pending_record (at_time 1000400)
       = (Continues, unsuccessful_breaker 3 0,
          pending_record\<lparr>attempts := 1, lastAttempt := 1000400\<rparr>,
          \<lparr>clock = 1000400, trace = [Invoke ''Provider1'']\<rparr>)
   \<and> retry_loop emailPayload [0..<Suc MAX_RETRIES] (unsuccessful_breaker 2 2) pending_record
        (at_time 1000400)
       = (Continues, unsuccessful_breaker 5 0,
          pending_record\<lparr>attempts := 3, lastAttempt := 1000400\<rparr>,
          \<lparr>clock = 1000400,
           trace = [Invoke ''Provider1'', Invoke ''Provider1'', Invoke ''Provider1'']\<rparr>)"
proof -
  have h1: "fst (send_gate (clock (at_time 1000400)) (unsuccessful_breaker 2 2)) = None"
    by (simp add: unsuccessful_breaker_def ev)
  have h2: "respond (cb_provider (unsuccessful_breaker 2 2)) emailPayload
        (sendCalledCount (cb_provider (unsuccessful_breaker 2 2)))
       = Resolves False ''Provider1''"
    by (simp add: unsuccessful_breaker_def)
  have s: "CircuitBreaker_send emailPayload (unsuccessful_breaker 2 2) (at_time 1000400)
       = (Inr (False, ''Provider1''), unsuccessful_breaker 3 0,
          \<lparr>clock = 1000400, trace = [Invoke ''Provider1'']\<rparr>)"
    by (simp add: unsuccessful_breaker_def ev)
  have l: "retry_loop emailPayload [0..<Suc MAX_RETRIES] (unsuccessful_breaker 2 2) pending_record
        (at_time 1000400)
       = (Continues, unsuccessful_breaker 5 0,
          pending_record\<lparr>attempts := 3, lastAttempt := 1000400\<rparr>,
          \<lparr>clock = 1000400,
           trace = [Invoke ''Provider1'', Invoke ''Provider1'', Invoke ''Provider1'']\<rparr>)"
    by (simp add: unsuccessful_breaker_def ev svc_defs pending_record_def upt_rec)
  from unsuccessful_result_skips_backoff [OF h1 h2, of 0 pending_record "[]"] s
  have a: "attempt emailPayload 0 (unsuccessful_breaker 2 2) pending_record (at_time 1000400)
       = (Continues, unsuccessful_breaker 3 0,
          pending_record\<lparr>attempts := 1, lastAttempt := 1000400\<rparr>,
          \<lparr>clock = 1000400, trace = [Invoke ''Provider1'']\<rparr>)"
    by (auto simp: pending_record_def at_time_def)
  from h1 h2 s a l show ?thesis by blast
qed

subsection \<open>C1: a repeated call for a key that was sent\<close>

text \<open>
  Claim C1, for the keys the guard of line 58 covers. The guard looks the key up in
  \<open>sentEmailIds\<close>, which holds the keys of the records with status \<open>sent\<close>. For such a
  key, with any payload, a repeated call returns the record the map holds and leaves
  service and world as they were: every field of the record (the attempts counter with
  them), the providers' call counts, the trace and the rate window are unchanged.
\<close>

theorem sent_key_is_idempotent:
  "(key \<in> sentEmailIds s
      \<longrightarrow> sendEmail pl key uid s w = (Inr (getEmailStatus s key), s, w))
   \<and> (reachable s \<and> getEmailStatus s key = Some r \<and> status r = sent
      \<longrightarrow> sendEmail pl key uid s w = (Inr (Some r), s, w))"
proof (intro conjI impI)
  assume "key \<in> sentEmailIds s"
  then show "sendEmail pl key uid s w = (Inr (getEmailStatus s key), s, w)"
    by (simp add: sendEmail_def getEmailStatus_def)
next
  assume a: "reachable s \<and> getEmailStatus s key = Some r \<and> status r = sent"
  then have "key \<in> sentEmailIds s"
    using reachable_sent [of s key] by (auto simp: getEmailStatus_def)
  with a show "sendEmail pl key uid s w = (Inr (Some r), s, w)"
    by (simp add: sendEmail_def getEmailStatus_def)
qed

theorem sent_key_is_idempotent_witness:
  "''id-4'' \<in> sentEmailIds (fst (snd sent_once))
   \<and> reachable (fst (snd sent_once))
   \<and> getEmailStatus (fst (snd sent_once)) ''id-4''
       = Some \<lparr>email_id = ''uuid-1'', status = sent, attempts = 1,
                provider = Some ''Provider1'', lastAttempt = 1000000,
                idempotencyKey = ''id-4''\<rparr>
   \<and> sendEmail emailPayload ''id-4'' ''uuid-2'' (fst (snd sent_once)) (at_time 1000500)
       = (Inr (Some \<lparr>email_id = ''uuid-1'', status = sent, attempts = 1,
                       provider = Some ''Provider1'', lastAttempt = 1000000,
                       idempotencyKey = ''id-4''\<rparr>),
          fst (snd sent_once), at_time 1000500)
   \<and> sendCalledCounts (fst (snd sent_once)) = [1, 0]
   \<and> requestTimestamps (fst (snd sent_once)) = [1000000]"
proof -
  have k: "''id-4'' \<in> sentEmailIds (fst (snd sent_once))"
    by (simp add: sent_once_def svc_defs ev upt_rec)
  have h: "reachable (fst (snd sent_once))
      \<and> getEmailStatus (fst (snd sent_once)) ''id-4''
          = Some \<lparr>email_id = ''uuid-1'', status = sent, attempts = 1,
                   provider = Some ''Provider1'', lastAttempt = 1000000,
                   idempotencyKey = ''id-4''\<rparr>
      \<and> status \<lparr>email_id = ''uuid-1'', status = sent, attempts = 1,
                 provider = Some ''Provider1'', lastAttempt = 1000000,
                 idempotencyKey = ''id-4''\<rparr> = sent"
    using sent_once_reachable sent_once_value(2) by simp
  note t = sent_key_is_idempotent
    [of "''id-4''" "fst (snd sent_once)" emailPayload "''uuid-2''" "at_time 1000500",
     THEN conjunct2, THEN mp, OF h]
  from k h t sent_once_value(3,4) show ?thesis by blast
qed

text \<open>
  A key whose record is \<open>failed\<close> is not covered: forty seconds after a call on which
  both providers failed, a call with the same key returns a new record with a new id,
  invokes both providers again (each breaker lets one probe through) and puts its
  timestamp into the rate window.
\<close>

theorem failed_key_is_dispatched_again:
  "fst failed_once
     = Inr (Some \<lparr>email_id = ''uuid-1'', status = failed, attempts = 6, provider = None,
                  lastAttempt = 1001200, idempotencyKey = ''id-3''\<rparr>)
   \<and> sendCalledCounts (fst (snd failed_once)) = [3, 3]
   \<and> requestTimestamps (fst (snd failed_once)) = [1000000]
   \<and> fst failed_again
     = Inr (Some \<lparr>email_id = ''uuid-2'', status = failed, attempts = 6, provider = None,
                  lastAttempt = 1042400, idempotencyKey = ''id-3''\<rparr>)
   \<and> sendCalledCounts (fst (snd failed_again)) = [4, 4]
   \<and> requestTimestamps (fst (snd failed_again)) = [1041200]
   \<and> trace (snd (snd failed_again))
     = [Invoke ''Provider1'', Wait 200, Wait 400, Invoke ''Provider2'', Wait 200, Wait 400]"
  by (simp add: failed_again_def failed_once_def svc_defs ev upt_rec)

subsection \<open>C2: one record per key\<close>

text \<open>
  Claim C2, as the code has it. Once the record of a key has status \<open>sent\<close>, no
  sequence of later calls changes it: id, provider name and every other field stay.
  A call changes the entry of no key but its own; and when it changes that entry, the
  key was not in \<open>sentEmailIds\<close>, the new entry has the id generated in that call,
  and it is the record the call returns when the call returns one.
\<close>

theorem sent_record_is_stable:
  "(reachable s \<and> evolves s s' \<and> getEmailStatus s key = Some r \<and> status r = sent
      \<longrightarrow> getEmailStatus s' key = Some r)
   \<and> (sendEmail pl key' uid s w = (res, s'', w') \<and> key \<noteq> key'
      \<longrightarrow> getEmailStatus s'' key = getEmailStatus s key)
   \<and> (sendEmail pl key' uid s w = (res, s'', w') \<and>
       getEmailStatus s'' key' \<noteq> getEmailStatus s key'
      \<longrightarrow> key' \<notin> sentEmailIds s
        \<and> (\<exists>te. getEmailStatus s'' key' = Some te \<and> email_id te = uid
               \<and> (\<forall>r. res = Inr r \<longrightarrow> r = Some te)))"
proof (intro conjI impI)
  assume a: "reachable s \<and> evolves s s' \<and> getEmailStatus s key = Some r \<and> status r = sent"
  then have e: "evolves s s'" and rs: "reachable s"
    and g: "emailStatus s key = Some r \<and> status r = sent"
    by (auto simp: getEmailStatus_def)
  from e rs g have "reachable s' \<and> emailStatus s' key = Some r"
  proof (induction rule: evolves.induct)
    case (same s)
    then show ?case by simp
  next
    case (later s s' pl k uid w res s'' w')
    then have r': "reachable s'" and g': "emailStatus s' key = Some r" by auto
    from r' later.hyps(2) have r'': "reachable s''" by (rule reachable.call)
    from g' later.prems(2) reachable_sent [OF r', of key] have "key \<in> sentEmailIds s'"
      by auto
    with sendEmail_cases [OF later.hyps(2)] g' have "emailStatus s'' key = Some r"
      by (auto simp: isRateLimited_def Let_def)
    with r'' show ?case by simp
  qed
  then show "getEmailStatus s' key = Some r" by (simp add: getEmailStatus_def)
next
  assume "sendEmail pl key' uid s w = (res, s'', w') \<and> key \<noteq> key'"
  with sendEmail_cases [of pl key' uid s w res s'' w']
  show "getEmailStatus s'' key = getEmailStatus s key"
    by (auto simp: getEmailStatus_def isRateLimited_def Let_def)
next
  assume a: "sendEmail pl key' uid s w = (res, s'', w') \<and>
       getEmailStatus s'' key' \<noteq> getEmailStatus s key'"
  with sendEmail_cases [of pl key' uid s w res s'' w']
  show "key' \<notin> sentEmailIds s"
    and "\<exists>te. getEmailStatus s'' key' = Some te \<and> email_id te = uid
               \<and> (\<forall>r. res = Inr r \<longrightarrow> r = Some te)"
    by (auto simp: getEmailStatus_def isRateLimited_def Let_def)
qed

text \<open>
  The record of a key does change while it is not \<open>sent\<close>: after a failed first call
  the map holds the record with id uuid-1 for the key, after the second call for the
  same key the one with id uuid-2.
\<close>

theorem failed_key_gets_new_record:
  "reachable (fst (snd failed_once))
   \<and> getEmailStatus (fst (snd failed_once)) ''id-3''
     = Some \<lparr>email_id = ''uuid-1'', status = failed, attempts = 6, provider = None,
             lastAttempt = 1001200, idempotencyKey = ''id-3''\<rparr>
   \<and> evolves (fst (snd failed_once)) (fst (snd failed_again))
   \<and> getEmailStatus (fst (snd failed_again)) ''id-3''
     = Some \<lparr>email_id = ''uuid-2'', status = failed, attempts = 6, provider = None,
             lastAttempt = 1042400, idempotencyKey = ''id-3''\<rparr>"
proof -
  have "reachable (emailService True True)"
    using emailService_fresh by (rule reachable.fresh)
  moreover have "sendEmail emailPayload ''id-3'' ''uuid-1'' (emailService True True) world0
      = (fst failed_once, fst (snd failed_once), snd (snd failed_once))"
    by (simp add: failed_once_def)
  ultimately have r: "reachable (fst (snd failed_once))" by (rule reachable.call)
  have "sendEmail emailPayload ''id-3'' ''uuid-2'' (fst (snd failed_once)) (at_time 1041200)
      = (fst failed_again, fst (snd failed_again), snd (snd failed_again))"
    by (simp add: failed_again_def)
  with evolves.same have e: "evolves (fst (snd failed_once)) (fst (snd failed_again))"
    by (rule evolves.later)
  have "getEmailStatus (fst (snd failed_once)) ''id-3''
     = Some \<lparr>email_id = ''uuid-1'', status = failed, attempts = 6, provider = None,
             lastAttempt = 1001200, idempotencyKey = ''id-3''\<rparr>"
    "getEmailStatus (fst (snd failed_again)) ''id-3''
     = Some \<lparr>email_id = ''uuid-2'', status = failed, attempts = 6, provider = None,
             lastAttempt = 1042400, idempotencyKey = ''id-3''\<rparr>"
    by (simp_all add: failed_again_def failed_once_def svc_defs ev upt_rec)
  with r e show ?thesis by blast
qed

theorem sent_record_is_stable_witness:
  "reachable (fst (snd sent_once))
   \<and> evolves (fst (snd sent_once)) (fst (snd sent_then_other))
   \<and> getEmailStatus (fst (snd sent_once)) ''id-4''
       = Some \<lparr>email_id = ''uuid-1'', status = sent, attempts = 1,
                provider = Some ''Provider1'', lastAttempt = 1000000,
                idempotencyKey = ''id-4''\<rparr>
   \<and> getEmailStatus (fst (snd sent_then_other)) ''id-4''
       = Some \<lparr>email_id = ''uuid-1'', status = sent, attempts = 1,
                provider = Some ''Provider1'', lastAttempt = 1000000,
                idempotencyKey = ''id-4''\<rparr>
   \<and> ''id-4'' \<noteq> ''id-5''
   \<and> getEmailStatus (fst (snd sent_once)) ''id-5'' = None
   \<and> ''id-5'' \<notin> sentEmailIds (fst (snd sent_once))
   \<and> getEmailStatus (fst (snd sent_then_other)) ''id-5''
       = Some \<lparr>email_id = ''uuid-2'', status = sent, attempts = 1,
                provider = Some ''Provider1'', lastAttempt = 1000500,
                idempotencyKey = ''id-5''\<rparr>"
proof -
  let ?r = "\<lparr>email_id = ''uuid-1'', status = sent, attempts = 1,
              provider = Some ''Provider1'', lastAttempt = 1000000,
              idempotencyKey = ''id-4''\<rparr>"
  have c: "sendEmail emailPayload ''id-5'' ''uuid-2'' (fst (snd sent_once)) (at_time 1000500)
      = (fst sent_then_other, fst (snd sent_then_other), snd (snd sent_then_other))"
    by (simp add: sent_then_other_def)
  with evolves.same have e: "evolves (fst (snd sent_once)) (fst (snd sent_then_other))"
    by (rule evolves.later)
  have n: "getEmailStatus (fst (snd sent_once)) ''id-5'' = None"
    by (simp add: sent_once_def svc_defs ev upt_rec)
  have o: "getEmailStatus (fst (snd sent_then_other)) ''id-5''
       = Some \<lparr>email_id = ''uuid-2'', status = sent, attempts = 1,
                provider = Some ''Provider1'', lastAttempt = 1000500,
                idempotencyKey = ''id-5''\<rparr>"
    by (simp add: sent_then_other_def sent_once_def svc_defs ev upt_rec)
  have h1: "reachable (fst (snd sent_once)) \<and>
      evolves (fst (snd sent_once)) (fst (snd sent_then_other)) \<and>
      getEmailStatus (fst (snd sent_once)) ''id-4'' = Some ?r \<and> status ?r = sent"
    using sent_once_reachable e sent_once_value(2) by simp
  have h3: "sendEmail emailPayload ''id-5'' ''uuid-2'' (fst (snd sent_once)) (at_time 1000500)
      = (fst sent_then_other, fst (snd sent_then_other), snd (snd sent_then_other)) \<and>
      getEmailStatus (fst (snd sent_then_other)) ''id-5''
        \<noteq> getEmailStatus (fst (snd sent_once)) ''id-5''"
    using c n o by simp
  note t = sent_record_is_stable
    [of "fst (snd sent_once)" "fst (snd sent_then_other)" "''id-4''" ?r emailPayload
        "''id-5''" "''uuid-2''" "at_time 1000500" "fst sent_then_other"
        "fst (snd sent_then_other)" "snd (snd sent_then_other)"]
  note t1 = t [THEN conjunct1, THEN mp, OF h1]
  note t3 = t [THEN conjunct2, THEN conjunct2, THEN mp, OF h3, THEN conjunct1]
  have d: "''id-4'' \<noteq> ''id-5''" by simp
  from h1 t1 d n t3 o show ?thesis by blast
qed

subsection \<open>Providers that reject with an error value\<close>

text \<open>
  When no provider rejects with \<^verbatim>\<open>undefined\<close> or \<^verbatim>\<open>null\<close>, line 100 does not throw and
  nothing but the rate-limit error leaves \<open>sendEmail\<close>.
\<close>

lemma send_no_nullish:
  assumes "\<forall>n. respond (cb_provider cb) pl n \<noteq> Rejects Nullish"
    and "CircuitBreaker_send pl cb w = (res, cb', w')"
  shows "res \<noteq> Inl (ProviderError Nullish)"
    and "respond (cb_provider cb') = respond (cb_provider cb)"
  using assms
  by (auto simp: cb_defs Let_def split: if_splits outcome.splits)

lemma attempt_no_throw:
  assumes "\<forall>n. respond (cb_provider cb) pl n \<noteq> Rejects Nullish"
    and "attempt pl i cb te w = (f, cb', te', w')"
  shows "\<forall>e. f \<noteq> Thrown e"
    and "respond (cb_provider cb') = respond (cb_provider cb)"
proof -
  obtain res cb1 w1 where s: "CircuitBreaker_send pl cb w = (res, cb1, w1)"
    by (cases "CircuitBreaker_send pl cb w") auto
  note n = send_no_nullish [OF assms(1) s]
  from s n assms(2) show "\<forall>e. f \<noteq> Thrown e"
    by (auto simp: attempt_def message_throws_def Let_def split: sum.splits if_splits)
  from s n assms(2) show "respond (cb_provider cb') = respond (cb_provider cb)"
    by (auto simp: attempt_def message_throws_def Let_def split: sum.splits if_splits)
qed

lemma retry_loop_no_throw:
  assumes "\<forall>n. respond (cb_provider cb) pl n \<noteq> Rejects Nullish"
    and "retry_loop pl is cb te w = (f, cb', te', w')"
  shows "\<forall>e. f \<noteq> Thrown e"
  using assms
proof (induction "is" arbitrary: cb te w)
  case Nil
  then show ?case by auto
next
  case (Cons i "is")
  obtain f1 cb1 te1 w1 where a: "attempt pl i cb te w = (f1, cb1, te1, w1)"
    by (cases "attempt pl i cb te w") auto
  note n = attempt_no_throw [OF Cons.prems(1) a]
  show ?case
  proof (cases "f1 = Continues")
    case True
    with a Cons.prems(2) have l: "retry_loop pl is cb1 te1 w1 = (f, cb', te', w')" by simp
    from Cons.prems(1) n(2) have "\<forall>n. respond (cb_provider cb1) pl n \<noteq> Rejects Nullish"
      by simp
    from Cons.IH [OF this l] show ?thesis .
  next
    case False
    with a Cons.prems(2) have "f = f1" by (auto split: flow.splits)
    with n(1) show ?thesis by simp
  qed
qed

lemma provider_loop_no_throw:
  assumes "\<forall>cb \<in> set cbs. \<forall>n. respond (cb_provider cb) pl n \<noteq> Rejects Nullish"
    and "provider_loop pl cbs te w = (f, cbs', te', w')"
  shows "\<forall>e. f \<noteq> Thrown e"
  using assms
proof (induction cbs arbitrary: te w f cbs' te' w')
  case Nil
  then show ?case by auto
next
  case (Cons cb cbs)
  then have h: "\<forall>n. respond (cb_provider cb) pl n \<noteq> Rejects Nullish"
    and hs: "\<forall>cb \<in> set cbs. \<forall>n. respond (cb_provider cb) pl n \<noteq> Rejects Nullish"
    by auto
  obtain f1 cb1 te1 w1
    where a: "retry_loop pl [0..<Suc MAX_RETRIES] cb te w = (f1, cb1, te1, w1)"
    by (cases "retry_loop pl [0..<Suc MAX_RETRIES] cb te w") auto
  note n = retry_loop_no_throw [OF h a]
  show ?case
  proof (cases "f1 = Continues")
    case True
    obtain f2 cbs2 te2 w2 where b: "provider_loop pl cbs te1 w1 = (f2, cbs2, te2, w2)"
      by (cases "provider_loop pl cbs te1 w1") auto
    with a True Cons.prems(2) have "f = f2" by auto
    with Cons.IH [OF hs b] show ?thesis by simp
  next
    case False
    with a Cons.prems(2) have "f = f1" by (auto split: flow.splits)
    with n show ?thesis by simp
  qed
qed

lemma sendEmail_no_throw:
  assumes "\<forall>cb \<in> set (providers s). \<forall>n. respond (cb_provider cb) pl n \<noteq> Rejects Nullish"
  shows "fst (sendEmail pl key uid s w) \<noteq> Inl TypeError"
proof (cases "key \<in> sentEmailIds s")
  case True
  then show ?thesis by (simp add: sendEmail_def)
next
  case k: False
  obtain lim s1 where l: "isRateLimited (clock w) s = (lim, s1)"
    by (cases "isRateLimited (clock w) s") auto
  then have p1: "providers s1 = providers s"
    by (auto simp: isRateLimited_def Let_def)
  show ?thesis
  proof (cases lim)
    case True
    with k l show ?thesis by (simp add: sendEmail_def)
  next
    case False
    let ?te = "\<lparr>email_id = uid, status = pending, attempts = 0, provider = None,
                 lastAttempt = clock w, idempotencyKey = key\<rparr>"
    obtain f cbs te w2 where p: "provider_loop pl (providers s) ?te w = (f, cbs, te, w2)"
      by (cases "provider_loop pl (providers s) ?te w") auto
    from provider_loop_no_throw [OF assms p] k l p1 False p show ?thesis
      by (cases f) (simp_all add: sendEmail_def Let_def)
  qed
qed

subsection \<open>Providers that never succeed\<close>

lemma send_unsuccessful:
  assumes "\<forall>n nm. respond (cb_provider cb) pl n \<noteq> Resolves True nm"
    and "\<forall>n. respond (cb_provider cb) pl n \<noteq> Rejects Nullish"
  shows "\<exists>res cb' w'. CircuitBreaker_send pl cb w = (res, cb', w')
           \<and> (\<forall>nm. res \<noteq> Inr (True, nm)) \<and> res \<noteq> Inl (ProviderError Nullish)
           \<and> respond (cb_provider cb') = respond (cb_provider cb)
           \<and> (state cb = CLOSED \<longrightarrow>
                sendCalledCount (cb_provider cb') = Suc (sendCalledCount (cb_provider cb))
                \<and> (Suc (failureCount cb) < failureThreshold \<longrightarrow>
                      state cb' = CLOSED \<and> failureCount cb' \<le> Suc (failureCount cb)))"
proof (cases "state cb = CLOSED")
  case True
  then have g: "send_gate (clock w) cb = (None, cb)"
    by (simp add: send_gate_def)
  show ?thesis
  proof (cases "respond (cb_provider cb) pl (sendCalledCount (cb_provider cb))")
    case (Resolves ok nm)
    with assms have "\<not> ok" by auto
    with g Resolves True show ?thesis
      by (simp add: CircuitBreaker_send_def provider_send_def send_settle_def reset_def)
  next
    case (Rejects r)
    with assms(2) have "r \<noteq> Nullish" by auto
    with Rejects g True show ?thesis
      by (simp add: CircuitBreaker_send_def provider_send_def send_settle_def
          recordFailure_def Let_def)
  qed
next
  case False
  obtain e cb1 where g: "send_gate (clock w) cb = (e, cb1)"
    by (cases "send_gate (clock w) cb") auto
  then have p: "cb_provider cb1 = cb_provider cb"
    and ge: "e \<noteq> Some (ProviderError Nullish)"
    by (auto simp: send_gate_def Let_def split: if_splits)
  show ?thesis
  proof (cases e)
    case (Some err)
    with g p ge False show ?thesis by (simp add: CircuitBreaker_send_def)
  next
    case None
    show ?thesis
    proof (cases "respond (cb_provider cb) pl (sendCalledCount (cb_provider cb))")
      case (Resolves ok nm)
      with assms have "\<not> ok" by auto
      with g p None Resolves False show ?thesis
        by (simp add: CircuitBreaker_send_def provider_send_def send_settle_def reset_def)
    next
      case (Rejects r)
      with assms(2) have "r \<noteq> Nullish" by auto
      with Rejects g p None False show ?thesis
        by (simp add: CircuitBreaker_send_def provider_send_def send_settle_def
            recordFailure_def Let_def)
    qed
  qed
qed

lemma attempt_unsuccessful:
  assumes "\<forall>n nm. respond (cb_provider cb) pl n \<noteq> Resolves True nm"
    and "\<forall>n. respond (cb_provider cb) pl n \<noteq> Rejects Nullish"
  shows "\<exists>cb' te' w'. attempt pl i cb te w = (Continues, cb', te', w')
           \<and> respond (cb_provider cb') = respond (cb_provider cb)
           \<and> attempts te' = Suc (attempts te)
           \<and> (state cb = CLOSED \<longrightarrow>
                sendCalledCount (cb_provider cb') = Suc (sendCalledCount (cb_provider cb))
                \<and> (Suc (failureCount cb) < failureThreshold \<longrightarrow>
                      state cb' = CLOSED \<and> failureCount cb' \<le> Suc (failureCount cb)))"
proof -
  from send_unsuccessful [OF assms, of w] obtain res cb' w'
    where s: "CircuitBreaker_send pl cb w = (res, cb', w')"
      and n: "\<forall>nm. res \<noteq> Inr (True, nm)"
      and e: "res \<noteq> Inl (ProviderError Nullish)"
      and r: "respond (cb_provider cb') = respond (cb_provider cb)"
      and c: "state cb = CLOSED \<longrightarrow>
                sendCalledCount (cb_provider cb') = Suc (sendCalledCount (cb_provider cb))
                \<and> (Suc (failureCount cb) < failureThreshold \<longrightarrow>
                      state cb' = CLOSED \<and> failureCount cb' \<le> Suc (failureCount cb))"
    by blast
  show ?thesis
  proof (cases res)
    case (Inl err)
    with s e r c show ?thesis by (simp add: attempt_def message_throws_def Let_def)
  next
    case (Inr ok_nm)
    with n have "\<not> fst ok_nm" by (cases ok_nm) auto
    with Inr s r c show ?thesis by (cases ok_nm) (simp add: attempt_def Let_def)
  qed
qed

lemma retry_loop_unsuccessful:
  assumes "\<forall>n nm. respond (cb_provider cb) pl n \<noteq> Resolves True nm"
    and "\<forall>n. respond (cb_provider cb) pl n \<noteq> Rejects Nullish"
  shows "\<exists>cb' te' w'. retry_loop pl is cb te w = (Continues, cb', te', w')
           \<and> respond (cb_provider cb') = respond (cb_provider cb)
           \<and> attempts te' = attempts te + length is"
  using assms
proof (induction "is" arbitrary: cb te w)
  case Nil
  then show ?case by simp
next
  case (Cons i "is")
  from attempt_unsuccessful [OF Cons.prems, of i te w] obtain cb1 te1 w1
    where a: "attempt pl i cb te w = (Continues, cb1, te1, w1)"
      and r: "respond (cb_provider cb1) = respond (cb_provider cb)"
      and n: "attempts te1 = Suc (attempts te)"
    by blast
  from Cons.prems r have "\<forall>n nm. respond (cb_provider cb1) pl n \<noteq> Resolves True nm"
    and "\<forall>n. respond (cb_provider cb1) pl n \<noteq> Rejects Nullish"
    by simp_all
  from Cons.IH [OF this, of te1 w1] a r n show ?case by auto
qed

lemma retry_loop_calls:
  assumes "\<forall>n nm. respond (cb_provider cb) pl n \<noteq> Resolves True nm"
    and "\<forall>n. respond (cb_provider cb) pl n \<noteq> Rejects Nullish"
    and "state cb = CLOSED" and "failureCount cb = 0"
  shows "sendCalledCount (cb_provider (fst (snd (retry_loop pl [0..<Suc MAX_RETRIES] cb te w))))
           = sendCalledCount (cb_provider cb) + 3"
proof -
  from attempt_unsuccessful [OF assms(1,2), of 0 te w] assms(3,4) obtain cb1 te1 w1
    where a1: "attempt pl 0 cb te w = (Continues, cb1, te1, w1)"
      and r1: "respond (cb_provider cb1) = respond (cb_provider cb)"
      and c1: "sendCalledCount (cb_provider cb1) = Suc (sendCalledCount (cb_provider cb))"
      and s1: "state cb1 = CLOSED" "failureCount cb1 \<le> 1"
    by (auto simp: failureThreshold_def)
  from assms(1,2) r1 have h1: "\<forall>n nm. respond (cb_provider cb1) pl n \<noteq> Resolves True nm"
    and k1: "\<forall>n. respond (cb_provider cb1) pl n \<noteq> Rejects Nullish"
    by simp_all
  from attempt_unsuccessful [OF h1 k1, of 1 te1 w1] s1 obtain cb2 te2 w2
    where a2: "attempt pl 1 cb1 te1 w1 = (Continues, cb2, te2, w2)"
      and r2: "respond (cb_provider cb2) = respond (cb_provider cb1)"
      and c2: "sendCalledCount (cb_provider cb2) = Suc (sendCalledCount (cb_provider cb1))"
      and s2: "state cb2 = CLOSED"
    by (auto simp: failureThreshold_def)
  from h1 k1 r2 have h2: "\<forall>n nm. respond (cb_provider cb2) pl n \<noteq> Resolves True nm"
    and k2: "\<forall>n. respond (cb_provider cb2) pl n \<noteq> Rejects Nullish"
    by simp_all
  from attempt_unsuccessful [OF h2 k2, of 2 te2 w2] s2 obtain cb3 te3 w3
    where a3: "attempt pl 2 cb2 te2 w2 = (Continues, cb3, te3, w3)"
      and c3: "sendCalledCount (cb_provider cb3) = Suc (sendCalledCount (cb_provider cb2))"
    by auto
  have "[0..<Suc MAX_RETRIES] = [0, 1, 2]"
    by (simp add: MAX_RETRIES_def upt_rec)
  with a1 a2 a3 have "retry_loop pl [0..<Suc MAX_RETRIES] cb te w = (Continues, cb3, te3, w3)"
    by simp
  with c1 c2 c3 show ?thesis by simp
qed

lemma provider_loop_unsuccessful:
  assumes "\<forall>cb \<in> set cbs. \<forall>n nm. respond (cb_provider cb) pl n \<noteq> Resolves True nm"
    and "\<forall>cb \<in> set cbs. \<forall>n. respond (cb_provider cb) pl n \<noteq> Rejects Nullish"
  shows "\<exists>cbs' te' w'. provider_loop pl cbs te w = (Continues, cbs', te', w')
           \<and> attempts te' = attempts te + Suc MAX_RETRIES * length cbs
           \<and> ((\<forall>cb \<in> set cbs. state cb = CLOSED \<and> failureCount cb = 0) \<longrightarrow>
                map (\<lambda>cb. sendCalledCount (cb_provider cb)) cbs'
                  = map (\<lambda>cb. sendCalledCount (cb_provider cb) + 3) cbs)"
  using assms
proof (induction cbs arbitrary: te w)
  case Nil
  then show ?case by simp
next
  case (Cons cb cbs)
  then have h: "\<forall>n nm. respond (cb_provider cb) pl n \<noteq> Resolves True nm"
    and k: "\<forall>n. respond (cb_provider cb) pl n \<noteq> Rejects Nullish"
    and hs: "\<forall>cb \<in> set cbs. \<forall>n nm. respond (cb_provider cb) pl n \<noteq> Resolves True nm"
    and ks: "\<forall>cb \<in> set cbs. \<forall>n. respond (cb_provider cb) pl n \<noteq> Rejects Nullish"
    by auto
  from retry_loop_unsuccessful [OF h k, of "[0..<Suc MAX_RETRIES]" te w] obtain cb1 te1 w1
    where a: "retry_loop pl [0..<Suc MAX_RETRIES] cb te w = (Continues, cb1, te1, w1)"
      and n: "attempts te1 = attempts te + Suc MAX_RETRIES"
    by auto
  from Cons.IH [OF hs ks, of te1 w1] obtain cbs' te' w'
    where b: "provider_loop pl cbs te1 w1 = (Continues, cbs', te', w')"
      and n': "attempts te' = attempts te1 + Suc MAX_RETRIES * length cbs"
      and c': "(\<forall>cb \<in> set cbs. state cb = CLOSED \<and> failureCount cb = 0) \<longrightarrow>
                map (\<lambda>cb. sendCalledCount (cb_provider cb)) cbs'
                  = map (\<lambda>cb. sendCalledCount (cb_provider cb) + 3) cbs"
    by blast
  from a b have p: "provider_loop pl (cb # cbs) te w = (Continues, cb1 # cbs', te', w')"
    by simp
  have "state cb = CLOSED \<and> failureCount cb = 0 \<longrightarrow>
          sendCalledCount (cb_provider cb1) = sendCalledCount (cb_provider cb) + 3"
    using retry_loop_calls [OF h k, of te w] a by auto
  with p n n' c' show ?case by auto
qed

lemma sendEmail_unsuccessful:
  assumes "key \<notin> sentEmailIds s" and "\<not> fst (isRateLimited (clock w) s)"
    and "\<forall>cb \<in> set (providers s). \<forall>n nm. respond (cb_provider cb) pl n \<noteq> Resolves True nm"
    and "\<forall>cb \<in> set (providers s). \<forall>n. respond (cb_provider cb) pl n \<noteq> Rejects Nullish"
  shows "\<exists>r. fst (sendEmail pl key uid s w) = Inr (Some r) \<and> status r = failed
             \<and> provider r = None \<and> attempts r = Suc MAX_RETRIES * length (providers s)"
    and "(\<forall>cb \<in> set (providers s). state cb = CLOSED \<and> failureCount cb = 0) \<Longrightarrow>
           sendCalledCounts (fst (snd (sendEmail pl key uid s w)))
             = map (\<lambda>n. n + 3) (sendCalledCounts s)"
proof -
  let ?te = "\<lparr>email_id = uid, status = pending, attempts = 0, provider = None,
               lastAttempt = clock w, idempotencyKey = key\<rparr>"
  obtain s1 where l: "isRateLimited (clock w) s = (False, s1)"
    using assms(2) by (cases "isRateLimited (clock w) s") auto
  then have p1: "providers s1 = providers s"
    by (auto simp: isRateLimited_def Let_def)
  from provider_loop_unsuccessful [OF assms(3,4), of ?te w] obtain cbs' te' w'
    where p: "provider_loop pl (providers s) ?te w = (Continues, cbs', te', w')"
      and n: "attempts te' = attempts ?te + Suc MAX_RETRIES * length (providers s)"
      and c: "(\<forall>cb \<in> set (providers s). state cb = CLOSED \<and> failureCount cb = 0) \<longrightarrow>
                map (\<lambda>cb. sendCalledCount (cb_provider cb)) cbs'
                  = map (\<lambda>cb. sendCalledCount (cb_provider cb) + 3) (providers s)"
    by blast
  from provider_loop_record [OF p] have r: "provider te' = None" by simp
  from assms(1) l p1 p have e: "sendEmail pl key uid s w =
      (Inr (Some (te'\<lparr>status := failed\<rparr>)),
       s1\<lparr>requestTimestamps := requestTimestamps s1 @ [clock w], providers := cbs',
          emailStatus := (emailStatus s1)(key \<mapsto> te'\<lparr>status := failed\<rparr>)\<rparr>, w')"
    by (simp add: sendEmail_def Let_def)
  with n r show "\<exists>r. fst (sendEmail pl key uid s w) = Inr (Some r) \<and> status r = failed
             \<and> provider r = None \<and> attempts r = Suc MAX_RETRIES * length (providers s)"
    by simp
  assume "\<forall>cb \<in> set (providers s). state cb = CLOSED \<and> failureCount cb = 0"
  with c e show "sendCalledCounts (fst (snd (sendEmail pl key uid s w)))
             = map (\<lambda>n. n + 3) (sendCalledCounts s)"
    by (simp add: sendCalledCounts_def comp_def)
qed

subsection \<open>C5: the outcomes of sendEmail\<close>

text \<open>
  Claim C5, as the code has it, for providers that reject with an error value (no
  rejection is \<^verbatim>\<open>undefined\<close> or \<^verbatim>\<open>null\<close>). The only error \<open>sendEmail\<close> throws is the
  rate-limit error, and it throws it exactly when the call reaches the limiter and the
  limiter rejects; on a reachable service every other call returns a record. When no
  provider call succeeds, the record returned has status \<open>failed\<close>, no provider name
  and \<open>attempts = (MAX_RETRIES + 1) * length providers\<close>: three tries at each breaker.
  When moreover every breaker is CLOSED with \<open>failureCount = 0\<close> at the start, as on
  a new service, each provider's \<^verbatim>\<open>send\<close> is invoked exactly three times.
\<close>

theorem sendEmail_outcomes:
  assumes "\<forall>cb \<in> set (providers s). \<forall>n. respond (cb_provider cb) pl n \<noteq> Rejects Nullish"
  shows "(fst (sendEmail pl key uid s w) = Inl e
            \<longrightarrow> e = RateLimitExceeded \<and> key \<notin> sentEmailIds s
                \<and> fst (isRateLimited (clock w) s))
         \<and> (reachable s \<and> fst (sendEmail pl key uid s w) \<noteq> Inl RateLimitExceeded
            \<longrightarrow> (\<exists>r. fst (sendEmail pl key uid s w) = Inr (Some r)))
         \<and> (key \<notin> sentEmailIds s \<and> \<not> fst (isRateLimited (clock w) s) \<and>
             (\<forall>cb \<in> set (providers s).
                 \<forall>n nm. respond (cb_provider cb) pl n \<noteq> Resolves True nm)
            \<longrightarrow> (\<exists>r. fst (sendEmail pl key uid s w) = Inr (Some r) \<and> status r = failed
                      \<and> provider r = None
                      \<and> attempts r = Suc MAX_RETRIES * length (providers s)))
         \<and> (key \<notin> sentEmailIds s \<and> \<not> fst (isRateLimited (clock w) s) \<and>
             (\<forall>cb \<in> set (providers s).
                 \<forall>n nm. respond (cb_provider cb) pl n \<noteq> Resolves True nm) \<and>
             (\<forall>cb \<in> set (providers s). state cb = CLOSED \<and> failureCount cb = 0)
            \<longrightarrow> sendCalledCounts (fst (snd (sendEmail pl key uid s w)))
                  = map (\<lambda>n. n + 3) (sendCalledCounts s))"
proof (intro conjI impI)
  assume a: "fst (sendEmail pl key uid s w) = Inl e"
  obtain res s' w' where c: "sendEmail pl key uid s w = (res, s', w')"
    by (cases "sendEmail pl key uid s w") auto
  from sendEmail_no_throw [OF assms, of key uid w] a have "e \<noteq> TypeError" by auto
  with sendEmail_cases [OF c] a c show "e = RateLimitExceeded" and "key \<notin> sentEmailIds s"
    and "fst (isRateLimited (clock w) s)"
    by auto
next
  assume a: "reachable s \<and> fst (sendEmail pl key uid s w) \<noteq> Inl RateLimitExceeded"
  obtain res s' w' where c: "sendEmail pl key uid s w = (res, s', w')"
    by (cases "sendEmail pl key uid s w") auto
  from a have "key \<in> sentEmailIds s \<longrightarrow> (\<exists>r. emailStatus s key = Some r)"
    using reachable_sent [of s key] by auto
  with sendEmail_cases [OF c] sendEmail_no_throw [OF assms, of key uid w] a c
  show "\<exists>r. fst (sendEmail pl key uid s w) = Inr (Some r)"
    by auto
next
  assume "key \<notin> sentEmailIds s \<and> \<not> fst (isRateLimited (clock w) s) \<and>
       (\<forall>cb \<in> set (providers s). \<forall>n nm. respond (cb_provider cb) pl n \<noteq> Resolves True nm)"
  with assms show "\<exists>r. fst (sendEmail pl key uid s w) = Inr (Some r) \<and> status r = failed
                \<and> provider r = None
                \<and> attempts r = Suc MAX_RETRIES * length (providers s)"
    using sendEmail_unsuccessful(1) by blast
next
  assume "key \<notin> sentEmailIds s \<and> \<not> fst (isRateLimited (clock w) s) \<and>
       (\<forall>cb \<in> set (providers s). \<forall>n nm. respond (cb_provider cb) pl n \<noteq> Resolves True nm) \<and>
       (\<forall>cb \<in> set (providers s). state cb = CLOSED \<and> failureCount cb = 0)"
  with assms show "sendCalledCounts (fst (snd (sendEmail pl key uid s w)))
            = map (\<lambda>n. n + 3) (sendCalledCounts s)"
    using sendEmail_unsuccessful(2) by blast
qed

theorem sendEmail_outcomes_witness:
  "map (\<lambda>cb. respond (cb_provider cb) emailPayload) (providers (fst after_five))
     = [\<lambda>n. Resolves True ''Provider1'', \<lambda>n. Resolves True ''Provider2'']
   \<and> fst (sendEmail emailPayload ''rate-6'' ''uuid-6'' (fst after_five) (snd after_five))
     = Inl RateLimitExceeded
   \<and> ''rate-6'' \<notin> sentEmailIds (fst after_five)
   \<and> fst (isRateLimited (clock (snd after_five)) (fst after_five))
   \<and> map (\<lambda>cb. respond (cb_provider cb) emailPayload) (providers (emailService True True))
     = [\<lambda>n. Rejects ErrorValue, \<lambda>n. Rejects ErrorValue]
   \<and> reachable (emailService True True)
   \<and> ''id-3'' \<notin> sentEmailIds (emailService True True)
   \<and> \<not> fst (isRateLimited (clock world0) (emailService True True))
   \<and> map state (providers (emailService True True)) = [CLOSED, CLOSED]
   \<and> map failureCount (providers (emailService True True)) = [0, 0]
   \<and> fst (sendEmail emailPayload ''id-3'' ''uuid-1'' (emailService True True) world0)
     = Inr (Some \<lparr>email_id = ''uuid-1'', status = failed, attempts = 6, provider = None,
                  lastAttempt = 1001200, idempotencyKey = ''id-3''\<rparr>)
   \<and> sendCalledCounts (emailService True True) = [0, 0]
   \<and> sendCalledCounts
        (fst (snd (sendEmail emailPayload ''id-3'' ''uuid-1'' (emailService True True) world0)))
     = [3, 3]"
proof -
  have r5: "map (\<lambda>cb. respond (cb_provider cb) emailPayload) (providers (fst after_five))
     = [\<lambda>n. Resolves True ''Provider1'', \<lambda>n. Resolves True ''Provider2'']"
    by (simp add: after_five_def rate_keys_def svc_defs ev upt_rec)
  then have n5: "\<forall>cb \<in> set (providers (fst after_five)).
      \<forall>n. respond (cb_provider cb) emailPayload n \<noteq> Rejects Nullish"
    by (auto simp: list_eq_iff_nth_eq in_set_conv_nth less_Suc_eq)
  have l: "fst (sendEmail emailPayload ''rate-6'' ''uuid-6'' (fst after_five) (snd after_five))
     = Inl RateLimitExceeded"
    by (simp add: sendEmail_def isRateLimited_def after_five_window const_defs)
  note t1 = sendEmail_outcomes
    [OF n5, of "''rate-6''" "''uuid-6''" "snd after_five" RateLimitExceeded,
     THEN conjunct1, THEN mp, OF l]
  have rf: "map (\<lambda>cb. respond (cb_provider cb) emailPayload) (providers (emailService True True))
     = [\<lambda>n. Rejects ErrorValue, \<lambda>n. Rejects ErrorValue]"
    by (simp add: ev)
  have nf: "\<forall>cb \<in> set (providers (emailService True True)).
      \<forall>n. respond (cb_provider cb) emailPayload n \<noteq> Rejects Nullish"
    by (simp add: ev)
  have rs: "reachable (emailService True True)"
    using emailService_fresh by (rule reachable.fresh)
  have v: "fst (sendEmail emailPayload ''id-3'' ''uuid-1'' (emailService True True) world0)
     = Inr (Some \<lparr>email_id = ''uuid-1'', status = failed, attempts = 6, provider = None,
                  lastAttempt = 1001200, idempotencyKey = ''id-3''\<rparr>)"
    using failed_once_value(1) by (simp add: failed_once_def)
  have h2: "reachable (emailService True True) \<and>
      fst (sendEmail emailPayload ''id-3'' ''uuid-1'' (emailService True True) world0)
        \<noteq> Inl RateLimitExceeded"
    using rs v by simp
  have k: "''id-3'' \<notin> sentEmailIds (emailService True True)"
    and nl: "\<not> fst (isRateLimited (clock world0) (emailService True True))"
    and st: "map state (providers (emailService True True)) = [CLOSED, CLOSED]"
    and fc: "map failureCount (providers (emailService True True)) = [0, 0]"
    and c0: "sendCalledCounts (emailService True True) = [0, 0]"
    by (simp_all add: isRateLimited_def ev)
  have h4: "''id-3'' \<notin> sentEmailIds (emailService True True) \<and>
      \<not> fst (isRateLimited (clock world0) (emailService True True)) \<and>
      (\<forall>cb \<in> set (providers (emailService True True)).
          \<forall>n nm. respond (cb_provider cb) emailPayload n \<noteq> Resolves True nm) \<and>
      (\<forall>cb \<in> set (providers (emailService True True)).
          state cb = CLOSED \<and> failureCount cb = 0)"
    using k nl by (simp add: ev)
  then have h3: "''id-3'' \<notin> sentEmailIds (emailService True True) \<and>
      \<not> fst (isRateLimited (clock world0) (emailService True True)) \<and>
      (\<forall>cb \<in> set (providers (emailService True True)).
          \<forall>n nm. respond (cb_provider cb) emailPayload n \<noteq> Resolves True nm)"
    by blast
  note t = sendEmail_outcomes [OF nf, of "''id-3''" "''uuid-1''" world0]
  note t2 = t [THEN conjunct2, THEN conjunct1, THEN mp, OF h2]
  note t3 = t [THEN conjunct2, THEN conjunct2, THEN conjunct1, THEN mp, OF h3]
  note t4 = t [THEN conjunct2, THEN conjunct2, THEN conjunct2, THEN mp, OF h4]
  from t4 c0 have c3: "sendCalledCounts
        (fst (snd (sendEmail emailPayload ''id-3'' ''uuid-1'' (emailService True True) world0)))
     = [3, 3]"
    by simp
  from r5 l t1 rf rs k nl st fc v c0 c3 show ?thesis by blast
qed

text \<open>
  Without the condition on the breakers the count of three fails: a call with a new
  key, made right after a call on which both providers failed three times each, finds
  both breakers OPEN; its six tries are all rejected by the breakers, the record is
  \<open>failed\<close> with \<open>attempts = 6\<close>, and no provider is invoked (the counts stay 3 and 3).
\<close>

theorem open_breakers_reject_every_try:
  "sentEmailIds (fst (snd failed_once)) = {}
   \<and> map state (providers (fst (snd failed_once))) = [OPEN, OPEN]
   \<and> sendCalledCounts (fst (snd failed_once)) = [3, 3]
   \<and> fst failed_other
     = Inr (Some \<lparr>email_id = ''uuid-2'', status = failed, attempts = 6, provider = None,
                  lastAttempt = 1002400, idempotencyKey = ''id-3b''\<rparr>)
   \<and> sendCalledCounts (fst (snd failed_other)) = [3, 3]
   \<and> trace (snd (snd failed_other))
     = trace (snd (snd failed_once)) @ [Wait 200, Wait 400, Wait 200, Wait 400]"
  by (simp add: failed_other_def failed_once_def svc_defs ev upt_rec)

subsection \<open>C6: fallback to the secondary provider\<close>





subsection \<open>C9: calls that overlap\<close>

text \<open>
  \<open>sendEmail_begin\<close> is the start of \<open>sendEmail\<close>: where it settles without
  suspending, it is the whole call.
\<close>

lemma sendEmail_begin_settled:
  assumes "fst (sendEmail_begin pl key uid s w) = Some r"
  shows "sendEmail pl key uid s w = (r, snd (sendEmail_begin pl key uid s w))"
proof (cases "key \<in> sentEmailIds s")
  case True
  with assms show ?thesis by (auto simp: sendEmail_begin_def sendEmail_def)
next
  case k: False
  obtain lim s1 where l: "isRateLimited (clock w) s = (lim, s1)"
    by (cases "isRateLimited (clock w) s") auto
  then have p: "providers s1 = providers s"
    by (auto simp: isRateLimited_def Let_def)
  show ?thesis
  proof (cases lim)
    case True
    with k l assms show ?thesis by (auto simp: sendEmail_begin_def sendEmail_def)
  next
    case False
    show ?thesis
    proof (cases "providers s")
      case Nil
      with k l p False assms show ?thesis
        by (auto simp: sendEmail_begin_def sendEmail_def Let_def)
    next
      case (Cons cb cbs)
      with k l p False have "fst (sendEmail_begin pl key uid s w) = None"
        by (simp add: sendEmail_begin_def Let_def split: prod.splits option.splits)
      with assms show ?thesis by simp
    qed
  qed
qed

text \<open>
  Claim C9 asks that calls with the same new key, made while none of them has finished,
  invoke the provider once and return the same record. The part of a call that runs
  before it first suspends never adds to \<open>sentEmailIds\<close>, the set the guard of line 58
  reads; the key is added at line 95, after the provider has resolved. So on the test
  service the second of two overlapping calls with key id-4 passes the guard too: it
  stores a second record, with id uuid-2, over the first, and invokes Provider1 a
  second time.
\<close>

theorem concurrent_calls_both_invoke:
  "sentEmailIds (fst (snd (sendEmail_begin pl key uid s w))) = sentEmailIds s
   \<and> fst begun_once = None
   \<and> sentEmailIds (fst (snd begun_once)) = {}
   \<and> sendCalledCounts (fst (snd begun_once)) = [1, 0]
   \<and> getEmailStatus (fst (snd begun_once)) ''id-4''
     = Some \<lparr>email_id = ''uuid-1'', status = pending, attempts = 1, provider = None,
             lastAttempt = 1000000, idempotencyKey = ''id-4''\<rparr>
   \<and> fst begun_twice = None
   \<and> sendCalledCounts (fst (snd begun_twice)) = [2, 0]
   \<and> getEmailStatus (fst (snd begun_twice)) ''id-4''
     = Some \<lparr>email_id = ''uuid-2'', status = pending, attempts = 1, provider = None,
             lastAttempt = 1000000, idempotencyKey = ''id-4''\<rparr>
   \<and> trace (snd (snd begun_twice)) = [Invoke ''Provider1'', Invoke ''Provider1'']"
proof -
  have "sentEmailIds (fst (snd (sendEmail_begin pl key uid s w))) = sentEmailIds s"
    by (simp add: sendEmail_begin_def Let_def isRateLimited_def
        split: bool.splits list.splits prod.splits option.splits)
  moreover have "fst begun_once = None
   \<and> sentEmailIds (fst (snd begun_once)) = {}
   \<and> sendCalledCounts (fst (snd begun_once)) = [1, 0]
   \<and> getEmailStatus (fst (snd begun_once)) ''id-4''
     = Some \<lparr>email_id = ''uuid-1'', status = pending, attempts = 1, provider = None,
             lastAttempt = 1000000, idempotencyKey = ''id-4''\<rparr>"
    by (simp add: begun_once_def sendEmail_begin_def svc_defs ev)
  moreover have "fst begun_twice = None
   \<and> sendCalledCounts (fst (snd begun_twice)) = [2, 0]
   \<and> getEmailStatus (fst (snd begun_twice)) ''id-4''
     = Some \<lparr>email_id = ''uuid-2'', status = pending, attempts = 1, provider = None,
             lastAttempt = 1000000, idempotencyKey = ''id-4''\<rparr>
   \<and> trace (snd (snd begun_twice)) = [Invoke ''Provider1'', Invoke ''Provider1'']"
    by (simp add: begun_twice_def begun_once_def sendEmail_begin_def svc_defs ev)
  ultimately show ?thesis by blast
qed

end
